theory Spec2Isabelle
  imports Main
begin

section \<open>SightMate interaction orchestrator: data model\<close>

text \<open>
  The orchestrator is the React component \<open>App\<close> (src/unnamed/part_000) together with the
  enums and interfaces of src/unnamed/part_001 and the Gemini adapters that follow the audio
  service in src/services/audioService.ts. The component keeps two copies of every piece of
  session state: the React state (\<open>useState\<close>), changed by the setters and visible to the
  next render, and a ref (\<open>useRef\<close>) that the asynchronous loops read, copied from the state
  by the effect of lines 67-80 after every render. Both copies are fields of the record
  \<open>session\<close>; a setter changes the state field only.

  Strings are ASCII texts (\<open>char list\<close>), timestamps are milliseconds (\<open>int\<close>),
  everything the component asks of its collaborators (speech, sounds, timers, camera) is
  appended to the field \<open>effects\<close>.
\<close>

datatype AppState =
    IDLE | LISTENING | PROCESSING_INTENT | CAPTURING | ANALYZING | SPEAKING
  | WALKING | NAVIGATING | EMERGENCY_CHECK | EMERGENCY_ACTING | ERROR

datatype IntentType =
    DESCRIBE | READ_TEXT | SAFETY_CHECK | HANDS_FREE_ON | HANDS_FREE_OFF
  | WALKING_MODE_ON | WALKING_MODE_OFF | NAVIGATE | STOP_NAVIGATION | WHERE_AM_I
  | COMPANION_MODE_ON | COMPANION_MODE_OFF | UNKNOWN

datatype EmergencySeverity = Sev_low | Sev_medium | Sev_high

datatype HazardCategory =
    Cat_ground | Cat_level_change | Cat_obstacle | Cat_moving | Cat_structural
  | Cat_environmental | Cat_animal | Cat_personal | Cat_fall | Cat_none

record IntentResult =
  intent_type :: IntentType
  destination :: "string option"

text \<open>A navigation plan is the JSON object parsed from the model's text, cast to the
  interface without a check: a field the object lacks is \<open>None\<close> (\<open>undefined\<close>).\<close>

record NavigationPlan =
  plan_destination :: "string option"
  steps :: "string list option"
  totalDistance :: "string option"
  totalTime :: "string option"

record WalkingHazard =
  hazard_type :: string
  category :: HazardCategory
  hazard_severity :: EmergencySeverity
  message :: string

text \<open>A pending \<open>setTimeout\<close> held in \<open>navTimerRef\<close>: the 3 s retry of the tick, or the
  14 s wait before the step index advances.\<close>

datatype nav_timer = RetryTick nat | AdvanceStep nat

datatype effect =
    Speak string bool
  | StopSpeaking
  | PlaySound string
  | Vibrate nat
  | Listen nat
  | StopListening
  | AbortInFlight
  | CaptureFrame bool bool
  | Delay nat
  | HazardRequest
  | Geolocate nat
  | ScheduleWalkingLoop nat
  | ScheduleRestore nat

record session =
  appState :: AppState
  isWalkingFeatureActive :: bool
  isNavigating :: bool
  isCompanionMode :: bool
  navPlan :: "NavigationPlan option"
  currentStepIndex :: nat
  appStateRef :: AppState
  isWalkingFeatureActiveRef :: bool
  isNavigatingRef :: bool
  isCompanionModeRef :: bool
  navPlanRef :: "NavigationPlan option"
  stepIndexRef :: nat
  isAnalyzingFrameRef :: bool
  navTimerRef :: "nav_timer option"
  emergencySeverityRef :: EmergencySeverity
  abortControllerRef :: "bool option"
  interactionIdRef :: int
  lastButtonPressRef :: int
  lastCompanionMsgRef :: int
  lastLoopTimeRef :: int
  effects :: "effect list"

definition emit :: "effect \<Rightarrow> session \<Rightarrow> session" where
  "emit e s = s\<lparr>effects := effects s @ [e]\<rparr>"

definition setAppState :: "AppState \<Rightarrow> session \<Rightarrow> session" where
  "setAppState m s = s\<lparr>appState := m\<rparr>"

text \<open>\<open>abortControllerRef\<close> is \<open>None\<close> for \<open>null\<close> and \<open>Some b\<close> for a controller whose
  signal has \<open>aborted = b\<close>.\<close>

definition abortCurrent :: "session \<Rightarrow> session" where
  "abortCurrent s =
     (case abortControllerRef s of
        None \<Rightarrow> s
      | Some _ \<Rightarrow> emit AbortInFlight (s\<lparr>abortControllerRef := Some True\<rparr>))"

definition clearNavTimer :: "session \<Rightarrow> session" where
  "clearNavTimer s = s\<lparr>navTimerRef := None\<rparr>"

subsection \<open>Rendering: the ref-sync effect (lines 67-80)\<close>

definition syncRefs :: "session \<Rightarrow> session" where
  "syncRefs s = s\<lparr>
     isWalkingFeatureActiveRef := isWalkingFeatureActive s,
     isNavigatingRef := isNavigating s,
     isCompanionModeRef := isCompanionMode s,
     appStateRef := appState s,
     navPlanRef := navPlan s,
     stepIndexRef := currentStepIndex s\<rparr>"

definition inferState :: "session \<Rightarrow> session" where
  "inferState s =
     (if appState s = IDLE then
        (if isNavigating s then setAppState NAVIGATING s
         else if isWalkingFeatureActive s then setAppState WALKING s
         else s)
      else s)"

text \<open>One run of the effect copies the state into the refs and then infers the mode; the
  inferred mode is a state change, so the effect runs once more and the refs settle.\<close>

definition render :: "session \<Rightarrow> session" where
  "render s = inferState (syncRefs s)"

definition commit :: "session \<Rightarrow> session" where
  "commit s = render (render s)"

subsection \<open>Suspension points\<close>

text \<open>
  An \<open>await\<close> of an external call gives the event loop back: React commits the pending state
  changes (\<open>commit\<close>), and any other handler may run before the awaiting function resumes. What
  the other handlers do at each kind of await is the parameter \<open>interference\<close>; \<open>quiet\<close> is the
  run in which nothing else happens.
\<close>

datatype await_point =
    AwaitSpeak | AwaitListen | AwaitClassify | AwaitGeolocation | AwaitDirections
  | AwaitDelay | AwaitCapture | AwaitRetryCapture | AwaitAnalyze | AwaitHazard

type_synonym interference = "await_point \<Rightarrow> session \<Rightarrow> session"

definition quiet :: interference where
  "quiet p s = s"

definition suspend :: "interference \<Rightarrow> await_point \<Rightarrow> session \<Rightarrow> session" where
  "suspend oth p s = commit (oth p (commit s))"

subsection \<open>restoreState (lines 359-363)\<close>

definition restoreState :: "session \<Rightarrow> session" where
  "restoreState s =
     (if isNavigatingRef s then setAppState NAVIGATING s
      else if isWalkingFeatureActiveRef s then setAppState WALKING s
      else setAppState IDLE s)"

section \<open>Strings: toLowerCase, trim, String.prototype.includes\<close>

definition lowerChar :: "char \<Rightarrow> char" where
  "lowerChar c =
     (case map_of (zip ''ABCDEFGHIJKLMNOPQRSTUVWXYZ'' ''abcdefghijklmnopqrstuvwxyz'') c of
        Some d \<Rightarrow> d
      | None \<Rightarrow> c)"

definition toLowerCase :: "string \<Rightarrow> string" where
  "toLowerCase t = map lowerChar t"

definition isWhiteSpace :: "char \<Rightarrow> bool" where
  "isWhiteSpace c = (c \<in> set [CHR 0x09, CHR 0x0A, CHR 0x0B, CHR 0x0C, CHR 0x0D, CHR '' ''])"

definition trim :: "string \<Rightarrow> string" where
  "trim t = rev (dropWhile isWhiteSpace (rev (dropWhile isWhiteSpace t)))"

definition startsWith :: "string \<Rightarrow> string \<Rightarrow> bool" where
  "startsWith t p = (take (length p) t = p)"

fun includes_str :: "string \<Rightarrow> string \<Rightarrow> bool" where
  "includes_str [] p = (p = [])"
| "includes_str (c # cs) p = (startsWith (c # cs) p \<or> includes_str cs p)"

section \<open>Emergency escalation protocol (lines 127-204)\<close>

datatype listen_result = Heard string | ListenFailed

text \<open>The two keyword tests of lines 158 and 162, on the lower-cased reply.\<close>

definition affirmative :: "string \<Rightarrow> bool" where
  "affirmative cleaned =
     (includes_str cleaned ''ok'' \<or> includes_str cleaned ''fine'' \<or> includes_str cleaned ''good''
      \<or> includes_str cleaned ''safe'' \<or> includes_str cleaned ''yes'')"

definition distress :: "string \<Rightarrow> bool" where
  "distress cleaned =
     (includes_str cleaned ''no'' \<or> includes_str cleaned ''help'' \<or> includes_str cleaned ''hurt''
      \<or> includes_str cleaned ''pain'' \<or> includes_str cleaned ''call'')"

definition emergencyCheckStart :: "EmergencySeverity \<Rightarrow> session \<Rightarrow> session" where
  "emergencyCheckStart severity s =
     emit (Speak ''It sounds like something is wrong. Are you okay?'' True)
       (setAppState EMERGENCY_CHECK
         ((clearNavTimer (emit StopSpeaking (abortCurrent s)))
            \<lparr>emergencySeverityRef := severity\<rparr>))"

definition triggerEmergencyAction :: "session \<Rightarrow> session" where
  "triggerEmergencyAction s =
     emit (Speak ''Emergency help has been contacted. Sending your location now.'' True)
       (emit (PlaySound ''warning'') (setAppState EMERGENCY_ACTING s))"

text \<open>
  \<open>performEmergencyVerification\<close> and \<open>handleNoResponse\<close> call each other. The list holds the
  results of the successive \<open>audioService.listen\<close> calls; when it is used up the protocol is
  still waiting for the microphone, and the session is returned as it stands.
\<close>

function performEmergencyVerification ::
    "interference \<Rightarrow> nat \<Rightarrow> listen_result list \<Rightarrow> session \<Rightarrow> session"
  and handleNoResponse ::
    "interference \<Rightarrow> nat \<Rightarrow> listen_result list \<Rightarrow> session \<Rightarrow> session"
where
  "performEmergencyVerification oth attempt rs s =
     (if appStateRef s \<noteq> EMERGENCY_CHECK then s
      else
        let timeout = (if emergencySeverityRef s = Sev_high then 20 else 30);
            s1 = emit (Listen timeout) s
        in case rs of
             [] \<Rightarrow> s1
           | r # rest \<Rightarrow>
               let s2 = suspend oth AwaitListen s1
               in (case r of
                     ListenFailed \<Rightarrow> handleNoResponse oth attempt rest s2
                   | Heard response \<Rightarrow>
                       if response = [] \<or> length (trim response) = 0
                       then handleNoResponse oth attempt rest s2
                       else
                         let cleaned = toLowerCase response
                         in if affirmative cleaned
                            then restoreState
                                   (suspend oth AwaitSpeak
                                     (emit (Speak ''I'm glad you are safe. Resuming.'' False) s2))
                            else if distress cleaned then triggerEmergencyAction s2
                            else handleNoResponse oth attempt rest s2))"
| "handleNoResponse oth attempt rs s =
     (if appStateRef s \<noteq> EMERGENCY_CHECK then s
      else
        let maxAttempts = (if emergencySeverityRef s = Sev_high then 1 else 2 :: nat)
        in if attempt < maxAttempts
           then performEmergencyVerification oth (attempt + 1) rs
                  (suspend oth AwaitSpeak
                    (emit (Speak ''I didn't hear you. Please say 'I'm okay' if you are safe.'' True) s))
           else triggerEmergencyAction s)"
  by pat_completeness auto
termination
  by (relation "measure (\<lambda>x. case x of
                    Inl (oth, attempt, rs, s) \<Rightarrow> 2 * length rs
                  | Inr (oth, attempt, rs, s) \<Rightarrow> 2 * length rs + 1)") auto

declare performEmergencyVerification.simps [simp del]
declare handleNoResponse.simps [simp del]

definition triggerEmergencyCheck ::
    "interference \<Rightarrow> EmergencySeverity \<Rightarrow> listen_result list \<Rightarrow> session \<Rightarrow> session" where
  "triggerEmergencyCheck oth severity rs s =
     performEmergencyVerification oth 1 rs
       (suspend oth AwaitSpeak (emergencyCheckStart severity s))"

text \<open>What the protocol counts as no response to a verification attempt: a rejected
  \<open>listen\<close>, an empty or blank transcript, and a reply with none of the keywords.\<close>

definition noResponse :: "listen_result \<Rightarrow> bool" where
  "noResponse r =
     (case r of
        ListenFailed \<Rightarrow> True
      | Heard t \<Rightarrow> t = [] \<or> length (trim t) = 0
                     \<or> (\<not> affirmative (toLowerCase t) \<and> \<not> distress (toLowerCase t)))"

definition listenWindow :: "session \<Rightarrow> nat" where
  "listenWindow s = (if emergencySeverityRef s = Sev_high then 20 else 30)"

section \<open>Perception loop (lines 266-350) and hazard analysis\<close>

text \<open>
  \<open>analyzeWalkingSafety\<close> (src/services/audioService.ts, lines 733-811) asks the model once per
  frame: the request is not wrapped in \<open>generateContentWithRetry\<close>, and every failure (an abort,
  a rejected request, a text that is not a JSON object) gives \<open>null\<close>. \<open>HazardRequest\<close> records
  the one call of \<open>generateContent\<close>.
\<close>

datatype api_response = ApiError | Unparsable | Parsed WalkingHazard

definition analyzeWalkingSafety ::
    "api_response \<Rightarrow> bool \<Rightarrow> session \<Rightarrow> WalkingHazard option \<times> session" where
  "analyzeWalkingSafety response abortedAfter s =
     (if abortControllerRef s = Some True then (None, s)
      else
        let s1 = emit HazardRequest s
        in case response of
             ApiError \<Rightarrow> (None, s1)
           | Unparsable \<Rightarrow> (None, s1)
           | Parsed h \<Rightarrow> if abortedAfter then (None, s1) else (Some h, s1))"

text \<open>
  What one cycle of \<open>runWalkingLoop\<close> reads from outside: the clock, the two captures
  (\<open>capture(lowRes, silent) -> frame | null\<close>), the model's answer, \<open>audioService.isSpeaking\<close>,
  and the two draws of \<open>Math.random\<close> (the phrase index \<open>floor(random * 8)\<close> and the test
  \<open>random > 0.95\<close>).
\<close>

record loop_env =
  loopNow :: int
  capture1 :: "string option"
  capture2 :: "string option"
  hazardResponse :: api_response
  abortedDuringAnalysis :: bool
  afterSpeechNow :: int
  speakingNow :: bool
  companionNow :: int
  phraseIndex :: nat
  rareClear :: bool

definition WALKING_LOOP_DELAY :: nat where
  "WALKING_LOOP_DELAY = 100"

definition COMPANION_PHRASES :: "string list" where
  "COMPANION_PHRASES =
     [''I'm walking right here with you.'',
      ''You're doing great, stay confident.'',
      ''I'm watching out for you.'',
      ''Everything looks good, keep going.'',
      ''I'm here, just let me know if you need anything.'',
      ''Nice and steady.'',
      ''You are doing wonderful.'',
      ''The path ahead seems clear.'']"

definition frameMissing :: "string option \<Rightarrow> bool" where
  "frameMissing f = (case f of None \<Rightarrow> True | Some d \<Rightarrow> d = [])"

text \<open>Lines 268-284: the heartbeat, the guards, and the acquisition of the in-flight guard.
  The result says whether the guard was acquired.\<close>

definition walkingLoopEnter :: "int \<Rightarrow> session \<Rightarrow> session \<times> bool" where
  "walkingLoopEnter now s =
     (let s1 = s\<lparr>lastLoopTimeRef := now\<rparr>;
          validState = (appStateRef s1 = WALKING \<or> appStateRef s1 = NAVIGATING);
          featuresActive = (isWalkingFeatureActiveRef s1 \<or> isNavigatingRef s1)
      in if appStateRef s1 = LISTENING \<or> appStateRef s1 = PROCESSING_INTENT
            \<or> appStateRef s1 = EMERGENCY_CHECK \<or> appStateRef s1 = EMERGENCY_ACTING
         then (s1, False)
         else if \<not> validState \<or> \<not> featuresActive then (s1, False)
         else if isAnalyzingFrameRef s1 then (s1, False)
         else (s1\<lparr>isAnalyzingFrameRef := True\<rparr>, True))"

text \<open>Lines 323-337: the companion filler and the rare "Path clear." confirmation.\<close>

definition companionLogic :: "loop_env \<Rightarrow> interference \<Rightarrow> session \<Rightarrow> session" where
  "companionLogic env oth s =
     (if isCompanionModeRef s \<and> \<not> speakingNow env then
        (if companionNow env - lastCompanionMsgRef s > 15000
         then (emit (Speak (COMPANION_PHRASES ! (phraseIndex env mod length COMPANION_PHRASES)) False) s)
                \<lparr>lastCompanionMsgRef := companionNow env\<rparr>
         else s)
      else if \<not> isCompanionModeRef s \<and> rareClear env \<and> \<not> speakingNow env
      then suspend oth AwaitSpeak (emit (Speak ''Path clear.'' False) s)
      else s)"

text \<open>Lines 311-338: the reaction to the analysis, when the mode is still active.\<close>

definition walkingReaction ::
    "loop_env \<Rightarrow> interference \<Rightarrow> WalkingHazard option \<Rightarrow> session \<Rightarrow> session" where
  "walkingReaction env oth hazard s =
     (if appStateRef s = WALKING \<or> appStateRef s = NAVIGATING then
        (case hazard of
           None \<Rightarrow> companionLogic env oth s
         | Some h \<Rightarrow>
             if hazard_type h \<noteq> ''none'' \<and> message h \<noteq> []
             then (suspend oth AwaitSpeak (emit (Speak (message h) True) (emit StopSpeaking s)))
                    \<lparr>lastCompanionMsgRef := afterSpeechNow env\<rparr>
             else companionLogic env oth s)
      else s)"

text \<open>Lines 286-338, the \<open>try\<close> block. \<open>triggerEmergencyCheck('high')\<close> is called without
  \<open>await\<close>: the cycle sees its synchronous part, \<open>emergencyCheckStart\<close>.\<close>

definition walkingCycleBody :: "loop_env \<Rightarrow> interference \<Rightarrow> session \<Rightarrow> session" where
  "walkingCycleBody env oth s =
     (let s1 = suspend oth AwaitCapture (emit (CaptureFrame True True) s);
          retry = frameMissing (capture1 env);
          s2 = (if retry
                then suspend oth AwaitRetryCapture (emit (CaptureFrame True True)
                       (suspend oth AwaitDelay (emit (Delay 100) s1)))
                else s1);
          frame = (if retry then capture2 env else capture1 env)
      in if frameMissing frame then s2
         else
           let (hazard, s3) = analyzeWalkingSafety (hazardResponse env) (abortedDuringAnalysis env) s2;
               s4 = suspend oth AwaitHazard s3
           in case hazard of
                None \<Rightarrow> walkingReaction env oth hazard s4
              | Some h \<Rightarrow>
                  if hazard_type h \<noteq> [] \<and> category h = Cat_fall
                  then emergencyCheckStart Sev_high s4
                  else walkingReaction env oth hazard s4)"

text \<open>Lines 341-349, the \<open>finally\<close> block.\<close>

definition walkingCycleFinally :: "session \<Rightarrow> session" where
  "walkingCycleFinally s =
     (let s1 = s\<lparr>isAnalyzingFrameRef := False\<rparr>
      in if (appStateRef s1 = WALKING \<or> appStateRef s1 = NAVIGATING) \<and> appStateRef s1 \<noteq> LISTENING
         then emit (ScheduleWalkingLoop WALKING_LOOP_DELAY) s1
         else s1)"

definition runWalkingLoop :: "loop_env \<Rightarrow> interference \<Rightarrow> session \<Rightarrow> session" where
  "runWalkingLoop env oth s =
     (case walkingLoopEnter (loopNow env) s of
        (s1, acquired) \<Rightarrow>
          if acquired then walkingCycleFinally (walkingCycleBody env oth s1) else s1)"

subsection \<open>Interleavings of the loop, the mode changes and the watchdog (lines 83-98)\<close>

text \<open>
  A cycle is in flight from the acquisition of the guard to its \<open>finally\<close> block. The events
  are: a call of \<open>runWalkingLoop\<close> (from its own timer or from the mode-change effect), the end
  of a cycle in flight, an interval of the watchdog, and a change of the mode and toggles seen
  by the loop. The second component of the configuration counts the cycles in flight.
\<close>

datatype loop_event =
    Invoke int
  | Finish
  | Watchdog int
  | ModeChange AppState bool bool

fun loopStep :: "loop_event \<Rightarrow> session \<times> nat \<Rightarrow> session \<times> nat" where
  "loopStep (Invoke now) (s, n) =
     (case walkingLoopEnter now s of (s1, acquired) \<Rightarrow> (s1, if acquired then n + 1 else n))"
| "loopStep Finish (s, n) =
     (if n = 0 then (s, n) else (walkingCycleFinally s, n - 1))"
| "loopStep (Watchdog now) (s, n) =
     (if (appStateRef s = WALKING \<or> appStateRef s = NAVIGATING) \<and> now - lastLoopTimeRef s > 2000
      then (case walkingLoopEnter now (s\<lparr>isAnalyzingFrameRef := False\<rparr>) of
              (s1, acquired) \<Rightarrow>
                (emit (Speak ''Walking mode active.'' False) s1, if acquired then n + 1 else n))
      else (s, n))"
| "loopStep (ModeChange m w nv) (s, n) =
     (s\<lparr>appStateRef := m, isWalkingFeatureActiveRef := w, isNavigatingRef := nv\<rparr>, n)"

fun loopRun :: "loop_event list \<Rightarrow> session \<times> nat \<Rightarrow> session \<times> nat" where
  "loopRun [] c = c"
| "loopRun (e # es) c = loopRun es (loopStep e c)"

section \<open>Navigation narrator (lines 231-262)\<close>

text \<open>
  \<open>startNavigationLoop\<close> is one tick; its argument is \<open>audioService.isSpeaking\<close>. The result
  says how the tick ended: \<open>TickSpoke\<close> when it started the speech of a step, at whose end
  \<open>navSpeechDone\<close> (the \<open>then\<close> callback, lines 250-257) runs; \<open>TickThrew\<close> when reading
  \<open>steps.length\<close> (line 237) raised a TypeError, the plan having no \<open>steps\<close>; \<open>TickDone\<close>
  otherwise. \<open>navTimerFire\<close> is the expiry of the timer held in \<open>navTimerRef\<close>.
\<close>

datatype tick_outcome = TickDone | TickSpoke | TickThrew

definition startNavigationLoop :: "bool \<Rightarrow> session \<Rightarrow> session \<times> tick_outcome" where
  "startNavigationLoop speaking s =
     (case navPlanRef s of
        None \<Rightarrow> (s, TickDone)
      | Some plan \<Rightarrow>
          if \<not> isNavigatingRef s \<or> appStateRef s \<noteq> NAVIGATING then (s, TickDone)
          else
            case steps plan of
              None \<Rightarrow> (s, TickThrew)
            | Some stepList \<Rightarrow>
                let index = stepIndexRef s
                in if index \<ge> length stepList then
                     (setAppState (if isWalkingFeatureActiveRef s then WALKING else IDLE)
                        ((emit (Speak ''You have arrived.'' False) s)
                           \<lparr>isNavigating := False, navPlan := None\<rparr>),
                      TickDone)
                   else if \<not> speaking then
                     (emit (Speak (stepList ! index) False) (emit (PlaySound ''navigation'') s),
                      TickSpoke)
                   else (s\<lparr>navTimerRef := Some (RetryTick 3000)\<rparr>, TickDone))"

definition navSpeechDone :: "session \<Rightarrow> session" where
  "navSpeechDone s =
     (if appStateRef s \<noteq> NAVIGATING then s
      else s\<lparr>navTimerRef := Some (AdvanceStep 14000)\<rparr>)"

definition navTimerFire :: "bool \<Rightarrow> session \<Rightarrow> session \<times> tick_outcome" where
  "navTimerFire speaking s =
     (case navTimerRef s of
        None \<Rightarrow> (s, TickDone)
      | Some (RetryTick d) \<Rightarrow> startNavigationLoop speaking (s\<lparr>navTimerRef := None\<rparr>)
      | Some (AdvanceStep d) \<Rightarrow>
          let s0 = s\<lparr>navTimerRef := None\<rparr>
          in if isNavigatingRef s0 \<and> appStateRef s0 = NAVIGATING
             then startNavigationLoop speaking (s0\<lparr>currentStepIndex := currentStepIndex s0 + 1\<rparr>)
             else (s0, TickDone))"

text \<open>
  The undisturbed narration: while the speech of a step is under way, React renders, the
  speech ends, the 14 s pass and the timer fires with nothing else speaking. The first
  argument counts the timers that have fired.
\<close>

fun narrate :: "nat \<Rightarrow> session \<times> tick_outcome \<Rightarrow> session \<times> tick_outcome" where
  "narrate 0 c = c"
| "narrate (Suc k) (s, ended) =
     (if ended = TickSpoke then narrate k (navTimerFire False (commit (navSpeechDone (commit s))))
      else (s, ended))"

section \<open>Command pipeline (lines 352-570)\<close>

datatype 'a outcome = Returned 'a | Threw string

text \<open>
  \<open>getWalkingDirections\<close> (src/services/audioService.ts, lines 814-838). The response of the
  request is a failure (\<open>DirectionsError\<close>, caught: \<open>null\<close>), an empty or absent text
  (\<open>EmptyText\<close>: \<open>response.text || "{}"\<close> parses as the object without fields), a text that
  does not parse (\<open>UnparsableText\<close>, caught: \<open>null\<close>), the text \<open>null\<close> (\<open>NullJson\<close>) or the
  text of a JSON object (\<open>PlanJson\<close>), which is returned as the plan whatever fields it has.
  The signal is tested before the request and after the response.
\<close>

datatype directions_response =
  DirectionsError | EmptyText | UnparsableText | NullJson | PlanJson NavigationPlan

definition emptyObject :: NavigationPlan where
  "emptyObject = \<lparr>plan_destination = None, steps = None, totalDistance = None,
     totalTime = None\<rparr>"

definition getWalkingDirections ::
    "bool \<Rightarrow> directions_response \<Rightarrow> bool \<Rightarrow> NavigationPlan option" where
  "getWalkingDirections abortedBefore response abortedAfter =
     (if abortedBefore then None
      else case response of
             DirectionsError \<Rightarrow> None
           | EmptyText \<Rightarrow> if abortedAfter then None else Some emptyObject
           | UnparsableText \<Rightarrow> None
           | NullJson \<Rightarrow> None
           | PlanJson plan \<Rightarrow> if abortedAfter then None else Some plan)"

text \<open>A value in a template literal: \<open>undefined\<close> is printed as its name.\<close>

definition templateText :: "string option \<Rightarrow> string" where
  "templateText v = (case v of None \<Rightarrow> ''undefined'' | Some t \<Rightarrow> t)"

text \<open>What one run of \<open>processCommand\<close> gets from outside: the results of \<open>classifyIntent\<close>,
  of the geolocation, of \<open>getWalkingDirections\<close>, of the camera and of \<open>analyzeImage\<close>, the
  clock, and what the other handlers do while the pipeline is suspended.\<close>

record cmd_env =
  classified :: "IntentResult outcome"
  located :: bool
  directions :: "NavigationPlan option"
  captured :: "string option"
  analysis :: "string outcome"
  commandNow :: int
  others :: interference

definition handleError :: "string \<Rightarrow> session \<Rightarrow> session" where
  "handleError msg s =
     emit (ScheduleRestore 3000)
       (emit (Speak msg False) (emit (PlaySound ''error'') (setAppState ERROR s)))"

definition commandCatch :: "string \<Rightarrow> int \<Rightarrow> session \<Rightarrow> session" where
  "commandCatch msg commandId s =
     (if msg = ''Aborted'' then s
      else if interactionIdRef s \<noteq> commandId then s
      else handleError ''Error processing request.'' s)"

definition companionOn :: "cmd_env \<Rightarrow> session \<Rightarrow> session" where
  "companionOn env s =
     (let s1 = suspend (others env) AwaitSpeak
                 (emit (Speak ''I'm here with you now. Let's go together.'' False)
                    (s\<lparr>isCompanionMode := True\<rparr>));
          s2 = s1\<lparr>lastCompanionMsgRef := commandNow env\<rparr>
      in if \<not> isWalkingFeatureActiveRef s2
         then setAppState WALKING (s2\<lparr>isWalkingFeatureActive := True\<rparr>)
         else restoreState s2)"

definition companionOff :: "cmd_env \<Rightarrow> session \<Rightarrow> session" where
  "companionOff env s =
     restoreState
       (suspend (others env) AwaitSpeak
          (emit (Speak ''Quiet mode enabled.'' False) (s\<lparr>isCompanionMode := False\<rparr>)))"

definition navigateTo :: "cmd_env \<Rightarrow> int \<Rightarrow> IntentResult \<Rightarrow> session \<Rightarrow> session" where
  "navigateTo env commandId intent s =
     (if destination intent = None \<or> destination intent = Some []
      then restoreState
             (suspend (others env) AwaitSpeak (emit (Speak ''Where would you like to go?'' False) s))
      else
        let s1 = emit (Speak (''Calculating walking route to '' @ the (destination intent) @ ''.'') False) s;
            s2 = suspend (others env) AwaitGeolocation (emit (Geolocate 4000) s1)
        in if interactionIdRef s2 \<noteq> commandId then s2
           else
             let s3 = suspend (others env) AwaitDirections s2
             in if interactionIdRef s3 \<noteq> commandId then s3
                else case directions env of
                       Some plan \<Rightarrow>
                         suspend (others env) AwaitSpeak
                           (emit (Speak (''Route found. '' @ templateText (totalTime plan)
                                         @ ''. Starting navigation.'') False)
                              (setAppState NAVIGATING
                                 (s3\<lparr>navPlan := Some plan,
                                     currentStepIndex := 0,
                                     isNavigating := True,
                                     isWalkingFeatureActive := True,
                                     isCompanionMode := True,
                                     lastCompanionMsgRef := commandNow env\<rparr>)))
                     | None \<Rightarrow>
                         restoreState (emit (Speak ''I couldn't find that location.'' False) s3))"

definition stopNavigation :: "cmd_env \<Rightarrow> session \<Rightarrow> session" where
  "stopNavigation env s =
     (let s1 = suspend (others env) AwaitSpeak
                 (emit (Speak ''Navigation stopped.'' False)
                    (s\<lparr>isNavigating := False, navPlan := None\<rparr>))
      in if isWalkingFeatureActiveRef s1 then setAppState WALKING s1 else setAppState IDLE s1)"

definition walkingModeOn :: "cmd_env \<Rightarrow> session \<Rightarrow> session" where
  "walkingModeOn env s =
     setAppState WALKING
       (suspend (others env) AwaitSpeak
          (emit (Speak ''Walking mode active. I'm with you.'' False)
             (s\<lparr>isWalkingFeatureActive := True,
                 isCompanionMode := True,
                 lastCompanionMsgRef := commandNow env\<rparr>)))"

definition walkingModeOff :: "cmd_env \<Rightarrow> session \<Rightarrow> session" where
  "walkingModeOff env s =
     setAppState IDLE
       (suspend (others env) AwaitSpeak
          (emit (Speak ''Walking mode disabled.'' False)
             (s\<lparr>isWalkingFeatureActive := False, isCompanionMode := False\<rparr>)))"

definition isVisualIntent :: "IntentType \<Rightarrow> bool" where
  "isVisualIntent t =
     (t = DESCRIBE \<or> t = READ_TEXT \<or> t = SAFETY_CHECK \<or> t = WHERE_AM_I \<or> t = UNKNOWN)"

definition visualIntent :: "cmd_env \<Rightarrow> int \<Rightarrow> IntentResult \<Rightarrow> session \<Rightarrow> session" where
  "visualIntent env commandId intent s =
     (let s1 = (if intent_type intent = WHERE_AM_I then
                  let a = suspend (others env) AwaitGeolocation
                            (emit (Geolocate 6000)
                               (emit (Speak ''Locating...'' False) (setAppState PROCESSING_INTENT s)))
                  in if located env then a
                     else emit (Speak ''GPS signal lost. Checking visual cues.'' False) a
                else s)
      in if interactionIdRef s1 \<noteq> commandId then s1
         else
           let s2 = setAppState CAPTURING s1;
               s3 = (if intent_type intent \<noteq> WHERE_AM_I
                     then emit (Speak ''Checking...'' False) s2 else s2);
               s4 = suspend (others env) AwaitDelay (emit (Delay 400) s3)
           in if interactionIdRef s4 \<noteq> commandId then s4
              else
                let s5 = suspend (others env) AwaitCapture (emit (CaptureFrame False False) s4)
                in if frameMissing (captured env) then handleError ''Camera error.'' s5
                   else
                     let s6 = suspend (others env) AwaitAnalyze (setAppState ANALYZING s5)
                     in case analysis env of
                          Threw msg \<Rightarrow> commandCatch msg commandId s6
                        | Returned text \<Rightarrow>
                            if interactionIdRef s6 \<noteq> commandId then s6
                            else restoreState
                                   (suspend (others env) AwaitSpeak
                                      (emit (Speak text False) (setAppState SPEAKING s6))))"

definition dispatchIntent :: "cmd_env \<Rightarrow> int \<Rightarrow> IntentResult \<Rightarrow> session \<Rightarrow> session" where
  "dispatchIntent env commandId intent s =
     (if intent_type intent = COMPANION_MODE_ON then companionOn env s
      else if intent_type intent = COMPANION_MODE_OFF then companionOff env s
      else if intent_type intent = NAVIGATE then navigateTo env commandId intent s
      else if intent_type intent = STOP_NAVIGATION then stopNavigation env s
      else if intent_type intent = WALKING_MODE_ON then walkingModeOn env s
      else if intent_type intent = WALKING_MODE_OFF then walkingModeOff env s
      else if isVisualIntent (intent_type intent) then visualIntent env commandId intent s
      else s)"

definition processCommand :: "string \<Rightarrow> int \<Rightarrow> cmd_env \<Rightarrow> session \<Rightarrow> session" where
  "processCommand transcript commandId env s =
     (if interactionIdRef s \<noteq> commandId then s
      else if transcript = [] then restoreState (emit (Speak ''I didn't hear you.'' False) s)
      else
        let s1 = emit (PlaySound ''end'') (setAppState PROCESSING_INTENT s);
            s2 = suspend (others env) AwaitClassify s1
        in case classified env of
             Threw msg \<Rightarrow> commandCatch msg commandId s2
           | Returned intent \<Rightarrow>
               if interactionIdRef s2 \<noteq> commandId then s2
               else dispatchIntent env commandId intent s2)"

text \<open>
  \<open>handleButtonPress\<close> (lines 517-570) up to its \<open>await audioService.listen()\<close>; the result
  says whether a new interaction was started. \<open>commandAfterListen\<close> is the rest of the handler.
  The spoken retry prompt is written with an ASCII apostrophe.
\<close>

definition handleButtonPress :: "int \<Rightarrow> session \<Rightarrow> session \<times> bool" where
  "handleButtonPress now s =
     (if now - lastButtonPressRef s < 300 then (s, False)
      else
        let s1 = s\<lparr>lastButtonPressRef := now\<rparr>
        in if appStateRef s1 = EMERGENCY_CHECK
           then (restoreState (emit (Speak ''Emergency check cancelled.'' False) s1), False)
           else if appStateRef s1 = EMERGENCY_ACTING
           then (restoreState (emit (Speak ''Emergency mode reset.'' False) s1), False)
           else if appStateRef s1 = LISTENING then (emit StopListening s1, False)
           else
             let s2 = (abortCurrent (s1\<lparr>interactionIdRef := now\<rparr>))\<lparr>abortControllerRef := Some False\<rparr>;
                 s3 = clearNavTimer (emit StopSpeaking s2);
                 s4 = emit (Vibrate 50) (setAppState LISTENING s3)
             in (emit (Listen 45) s4, True))"

definition commandAfterListen ::
    "listen_result \<Rightarrow> int \<Rightarrow> cmd_env \<Rightarrow> session \<Rightarrow> session" where
  "commandAfterListen r currentInteractionId env s =
     (case r of
        ListenFailed \<Rightarrow>
          if interactionIdRef s = currentInteractionId then restoreState s else s
      | Heard transcript \<Rightarrow>
          if interactionIdRef s \<noteq> currentInteractionId then s
          else if transcript = [] \<or> length (trim transcript) < 2
          then restoreState
                 (suspend (others env) AwaitSpeak
                    (emit (Speak ''I didn't hear you, please try again.'' True) s))
          else processCommand transcript currentInteractionId env s)"

definition pressAndCommand ::
    "int \<Rightarrow> listen_result \<Rightarrow> cmd_env \<Rightarrow> session \<Rightarrow> session" where
  "pressAndCommand now r env s =
     (case handleButtonPress now s of
        (s1, started) \<Rightarrow>
          if started then commandAfterListen r now env (suspend (others env) AwaitListen s1)
          else s1)"

section \<open>The session at mount (lines 25-64 and 221-222)\<close>

definition initialSession :: "int \<Rightarrow> session" where
  "initialSession now = \<lparr>
     appState = IDLE,
     isWalkingFeatureActive = False,
     isNavigating = False,
     isCompanionMode = False,
     navPlan = None,
     currentStepIndex = 0,
     appStateRef = IDLE,
     isWalkingFeatureActiveRef = False,
     isNavigatingRef = False,
     isCompanionModeRef = False,
     navPlanRef = None,
     stepIndexRef = 0,
     isAnalyzingFrameRef = False,
     navTimerRef = None,
     emergencySeverityRef = Sev_low,
     abortControllerRef = None,
     interactionIdRef = 0,
     lastButtonPressRef = 0,
     lastCompanionMsgRef = now,
     lastLoopTimeRef = now,
     effects = [Speak ''SightMate ready. Press to speak.'' False]\<rparr>"

section \<open>Vocabulary of the properties and sample inputs\<close>

text \<open>
  \<open>rendered\<close> sessions have no pending state change: the refs agree with the state.
  \<open>loopRuns\<close> are the guards of lines 270-282, \<open>cycleReturns\<close> an undisturbed cycle
  whose capture succeeds and whose analysis returns the hazard \<open>h\<close>. \<open>emits\<close> appends
  effects, \<open>requests\<close> counts the calls of the hazard model. \<open>walkingSession\<close> is a
  rendered session in walking mode with the companion on.
\<close>

definition rendered :: "session \<Rightarrow> bool" where
  "rendered s = (commit s = s)"

definition loopRuns :: "session \<Rightarrow> bool" where
  "loopRuns s =
     ((appStateRef s = WALKING \<or> appStateRef s = NAVIGATING)
      \<and> (isWalkingFeatureActiveRef s \<or> isNavigatingRef s)
      \<and> \<not> isAnalyzingFrameRef s)"

definition captureEffects :: "loop_env \<Rightarrow> effect list" where
  "captureEffects env =
     (if frameMissing (capture1 env)
      then [CaptureFrame True True, Delay 100, CaptureFrame True True]
      else [CaptureFrame True True])"

definition cycleFrame :: "loop_env \<Rightarrow> string option" where
  "cycleFrame env = (if frameMissing (capture1 env) then capture2 env else capture1 env)"

definition emits :: "effect list \<Rightarrow> session \<Rightarrow> session" where
  "emits es s = s\<lparr>effects := effects s @ es\<rparr>"

definition walkingSession :: session where
  "walkingSession = \<lparr>
     appState = WALKING, isWalkingFeatureActive = True, isNavigating = False,
     isCompanionMode = True, navPlan = None, currentStepIndex = 0,
     appStateRef = WALKING, isWalkingFeatureActiveRef = True, isNavigatingRef = False,
     isCompanionModeRef = True, navPlanRef = None, stepIndexRef = 0,
     isAnalyzingFrameRef = False, navTimerRef = None, emergencySeverityRef = Sev_low,
     abortControllerRef = Some False, interactionIdRef = 1000, lastButtonPressRef = 1000,
     lastCompanionMsgRef = 2000, lastLoopTimeRef = 0, effects = []\<rparr>"

definition cycleEnv :: "WalkingHazard \<Rightarrow> loop_env" where
  "cycleEnv h = \<lparr>loopNow = 3000, capture1 = Some ''frame'', capture2 = None,
     hazardResponse = Parsed h, abortedDuringAnalysis = False, afterSpeechNow = 4000,
     speakingNow = False, companionNow = 3500, phraseIndex = 0, rareClear = False\<rparr>"

definition hazardOf :: "string \<Rightarrow> HazardCategory \<Rightarrow> string \<Rightarrow> WalkingHazard" where
  "hazardOf t c m = \<lparr>hazard_type = t, category = c, hazard_severity = Sev_high, message = m\<rparr>"

definition cycleReturns :: "loop_env \<Rightarrow> session \<Rightarrow> WalkingHazard \<Rightarrow> bool" where
  "cycleReturns env s h =
     (rendered s \<and> loopRuns s \<and> \<not> frameMissing (cycleFrame env)
      \<and> abortControllerRef s \<noteq> Some True
      \<and> hazardResponse env = Parsed h \<and> \<not> abortedDuringAnalysis env)"

text \<open>The stages of a cycle under any interference: the session after the capture (and
  its retry), the result of the hazard analysis, and the session in which the cycle resumes
  after it.\<close>

definition entered :: "loop_env \<Rightarrow> session \<Rightarrow> session" where
  "entered env s = s\<lparr>lastLoopTimeRef := loopNow env, isAnalyzingFrameRef := True\<rparr>"

definition afterCaptures :: "loop_env \<Rightarrow> interference \<Rightarrow> session \<Rightarrow> session" where
  "afterCaptures env oth s =
     (if frameMissing (capture1 env)
      then suspend oth AwaitRetryCapture (emit (CaptureFrame True True)
             (suspend oth AwaitDelay (emit (Delay 100)
               (suspend oth AwaitCapture (emit (CaptureFrame True True) (entered env s))))))
      else suspend oth AwaitCapture (emit (CaptureFrame True True) (entered env s)))"

definition analysisResult :: "loop_env \<Rightarrow> interference \<Rightarrow> session \<Rightarrow> WalkingHazard option" where
  "analysisResult env oth s =
     fst (analyzeWalkingSafety (hazardResponse env) (abortedDuringAnalysis env)
            (afterCaptures env oth s))"

definition afterAnalysis :: "loop_env \<Rightarrow> interference \<Rightarrow> session \<Rightarrow> session" where
  "afterAnalysis env oth s =
     suspend oth AwaitHazard
       (snd (analyzeWalkingSafety (hazardResponse env) (abortedDuringAnalysis env)
              (afterCaptures env oth s)))"

definition requests :: "session \<Rightarrow> nat" where
  "requests s = count_list (effects s) HazardRequest"

definition pressDuringCapture :: interference where
  "pressDuringCapture p s = (if p = AwaitCapture then fst (handleButtonPress 5000 s) else s)"

definition noFrameEnv :: loop_env where
  "noFrameEnv = \<lparr>loopNow = 3000, capture1 = None, capture2 = None,
     hazardResponse = ApiError, abortedDuringAnalysis = False, afterSpeechNow = 4000,
     speakingNow = False, companionNow = 3500, phraseIndex = 0, rareClear = False\<rparr>"

definition guardConsistent :: "session \<times> nat \<Rightarrow> bool" where
  "guardConsistent c = (snd c = (if isAnalyzingFrameRef (fst c) then 1 else 0))"

text \<open>The watchdog restarts the loop when the mode is active and the heartbeat is older than
  2 s. A run is undisturbed when no restart happens while a cycle is in flight.\<close>

definition watchdogFires :: "int \<Rightarrow> session \<Rightarrow> bool" where
  "watchdogFires now s =
     ((appStateRef s = WALKING \<or> appStateRef s = NAVIGATING) \<and> now - lastLoopTimeRef s > 2000)"

fun restartsInFlight :: "loop_event \<Rightarrow> session \<times> nat \<Rightarrow> bool" where
  "restartsInFlight (Watchdog now) (s, n) = (watchdogFires now s \<and> 0 < n)"
| "restartsInFlight e c = False"

fun undisturbed :: "loop_event list \<Rightarrow> session \<times> nat \<Rightarrow> bool" where
  "undisturbed [] c = True"
| "undisturbed (e # es) c = (\<not> restartsInFlight e c \<and> undisturbed es (loopStep e c))"

subsection \<open>Navigation and command vocabulary\<close>

text \<open>
  \<open>narrating\<close> is the state in which the narrator is at step \<open>j\<close> of a plan;
  \<open>stepEffects\<close> is the cue and speech of the steps from \<open>j\<close> to \<open>k\<close>.
  \<open>navImpliesWalking\<close> is the implication between the two toggles, \<open>preserving\<close>
  says that the other handlers keep it. \<open>commandRuns\<close> describes a command that is
  current, not empty, classified, and not interleaved with other handlers. The sample sessions
  are the session after the first button press (\<open>listeningSession\<close>) and the one the
  navigate command leaves (\<open>navigatingSession\<close>).
\<close>

definition narrating :: "NavigationPlan \<Rightarrow> nat \<Rightarrow> session \<Rightarrow> bool" where
  "narrating plan j s =
     (navPlan s = Some plan \<and> isNavigating s \<and> appState s = NAVIGATING \<and> currentStepIndex s = j)"

definition stepEffects :: "string list \<Rightarrow> nat \<Rightarrow> nat \<Rightarrow> effect list" where
  "stepEffects stepList j k =
     concat (map (\<lambda>i. [PlaySound ''navigation'', Speak (stepList ! i) False]) [j..<k])"

definition navImpliesWalking :: "session \<Rightarrow> bool" where
  "navImpliesWalking s = (isNavigating s \<longrightarrow> isWalkingFeatureActive s)"

definition preserving :: "interference \<Rightarrow> bool" where
  "preserving oth = (\<forall>p s. navImpliesWalking s \<longrightarrow> navImpliesWalking (oth p s))"

definition commandRuns ::
    "string \<Rightarrow> int \<Rightarrow> cmd_env \<Rightarrow> IntentResult \<Rightarrow> session \<Rightarrow> bool" where
  "commandRuns transcript commandId env intent s =
     (interactionIdRef s = commandId \<and> transcript \<noteq> []
      \<and> classified env = Returned intent \<and> others env = quiet)"

definition emptyPlan :: NavigationPlan where
  "emptyPlan = \<lparr>plan_destination = Some ''Park'', steps = Some [],
     totalDistance = Some ''0 m'', totalTime = Some ''0 min''\<rparr>"

definition pressDuringSpeech :: interference where
  "pressDuringSpeech p s = (if p = AwaitSpeak then fst (handleButtonPress 5000 s) else s)"

definition companionEnv :: cmd_env where
  "companionEnv = \<lparr>classified = Returned \<lparr>intent_type = COMPANION_MODE_ON, destination = None\<rparr>,
     located = False, directions = None, captured = None, analysis = Returned [],
     commandNow = 6000, others = pressDuringSpeech\<rparr>"

definition listeningSession :: session where
  "listeningSession = \<lparr>
     appState = LISTENING, isWalkingFeatureActive = False, isNavigating = False,
     isCompanionMode = False, navPlan = None, currentStepIndex = 0,
     appStateRef = LISTENING, isWalkingFeatureActiveRef = False, isNavigatingRef = False,
     isCompanionModeRef = False, navPlanRef = None, stepIndexRef = 0,
     isAnalyzingFrameRef = False, navTimerRef = None, emergencySeverityRef = Sev_low,
     abortControllerRef = Some False, interactionIdRef = 1000, lastButtonPressRef = 1000,
     lastCompanionMsgRef = 0, lastLoopTimeRef = 0,
     effects = [Speak ''SightMate ready. Press to speak.'' False, StopSpeaking, Vibrate 50,
       Listen 45]\<rparr>"

definition twoStepPlan :: NavigationPlan where
  "twoStepPlan = \<lparr>plan_destination = Some ''Park'',
     steps = Some [''Walk north'', ''Turn left''], totalDistance = Some ''300 m'',
     totalTime = Some ''5 min''\<rparr>"

definition navEnv :: "NavigationPlan \<Rightarrow> cmd_env" where
  "navEnv plan = \<lparr>classified = Returned \<lparr>intent_type = NAVIGATE, destination = Some ''the park''\<rparr>,
     located = False, directions = Some plan, captured = None, analysis = Returned [],
     commandNow = 2000, others = quiet\<rparr>"

definition navigatingSession :: session where
  "navigatingSession =
     processCommand ''take me to the park'' 1000 (navEnv twoStepPlan) listeningSession"

definition offEnv :: cmd_env where
  "offEnv = \<lparr>classified = Returned \<lparr>intent_type = WALKING_MODE_OFF, destination = None\<rparr>,
     located = False, directions = None, captured = None, analysis = Returned [],
     commandNow = 9500, others = quiet\<rparr>"



section \<open>Properties: rendering and suspension\<close>

lemma mode_cases:
  obtains (busy) "appState s \<noteq> IDLE"
    | (nav) "appState s = IDLE" "isNavigating s"
    | (walk) "appState s = IDLE" "\<not> isNavigating s" "isWalkingFeatureActive s"
    | (idle) "appState s = IDLE" "\<not> isNavigating s" "\<not> isWalkingFeatureActive s"
  by blast

lemma commit_eq: "commit s = syncRefs (inferState s)"
  by (cases s rule: mode_cases)
     (simp_all add: commit_def render_def inferState_def syncRefs_def setAppState_def)

lemma commit_idem: "commit (commit s) = commit s"
  by (cases s rule: mode_cases)
     (simp_all add: commit_eq inferState_def syncRefs_def setAppState_def)

lemma commit_fields:
  "effects (commit s) = effects s"
  "emergencySeverityRef (commit s) = emergencySeverityRef s"
  "appStateRef (commit s) = appState (inferState s)"
  "appState (commit s) = appState (inferState s)"
  "isNavigatingRef (commit s) = isNavigating s"
  "isWalkingFeatureActiveRef (commit s) = isWalkingFeatureActive s"
  "isNavigating (commit s) = isNavigating s"
  "isWalkingFeatureActive (commit s) = isWalkingFeatureActive s"
  by (simp_all add: commit_eq inferState_def syncRefs_def setAppState_def)

lemma suspend_quiet: "suspend quiet p s = commit s"
  by (simp add: suspend_def quiet_def commit_idem)

lemma inferState_mode:
  "appState s \<noteq> IDLE \<Longrightarrow> appState (inferState s) = appState s"
  by (simp add: inferState_def)

lemma emit_fields:
  "effects (emit e s) = effects s @ [e]"
  "appState (emit e s) = appState s"
  "appStateRef (emit e s) = appStateRef s"
  "emergencySeverityRef (emit e s) = emergencySeverityRef s"
  "isNavigating (emit e s) = isNavigating s"
  "isWalkingFeatureActive (emit e s) = isWalkingFeatureActive s"
  by (simp_all add: emit_def)

lemma emergencyCheckStart_fields:
  "effects (emergencyCheckStart sev s) =
     effects (abortCurrent s) @ [StopSpeaking, Speak ''It sounds like something is wrong. Are you okay?'' True]"
  "appState (emergencyCheckStart sev s) = EMERGENCY_CHECK"
  "emergencySeverityRef (emergencyCheckStart sev s) = sev"
  "isNavigating (emergencyCheckStart sev s) = isNavigating s"
  "isWalkingFeatureActive (emergencyCheckStart sev s) = isWalkingFeatureActive s"
  by (simp_all add: emergencyCheckStart_def emit_def setAppState_def clearNavTimer_def abortCurrent_def
      split: option.splits)

lemma triggerEmergencyAction_fields:
  "effects (triggerEmergencyAction s) =
     effects s @ [PlaySound ''warning'',
       Speak ''Emergency help has been contacted. Sending your location now.'' True]"
  "appState (triggerEmergencyAction s) = EMERGENCY_ACTING"
  by (simp_all add: triggerEmergencyAction_def emit_def setAppState_def)

lemma restoreState_fields:
  "appState (restoreState s) =
     (if isNavigatingRef s then NAVIGATING else if isWalkingFeatureActiveRef s then WALKING else IDLE)"
  "effects (restoreState s) = effects s"
  by (simp_all add: restoreState_def setAppState_def)

section \<open>Properties: emergency escalation\<close>

lemma verification_noResponse:
  assumes "noResponse r" "appStateRef s = EMERGENCY_CHECK"
  shows "performEmergencyVerification quiet attempt (r # rest) s =
           handleNoResponse quiet attempt rest (commit (emit (Listen (listenWindow s)) s))"
proof (cases r)
  case ListenFailed
  then show ?thesis
    using assms(2)
    by (simp add: performEmergencyVerification.simps [of quiet attempt "ListenFailed # rest" s]
        suspend_quiet listenWindow_def)
next
  case (Heard t)
  then show ?thesis
    using assms
    by (auto simp add: performEmergencyVerification.simps [of quiet attempt "Heard t # rest" s]
        suspend_quiet listenWindow_def noResponse_def Let_def)
qed

lemma verification_safe:
  assumes "affirmative (toLowerCase t)" "t \<noteq> []" "length (trim t) \<noteq> 0"
    "appStateRef s = EMERGENCY_CHECK"
  shows "performEmergencyVerification quiet attempt (Heard t # rest) s =
           restoreState (commit (emit (Speak ''I'm glad you are safe. Resuming.'' False)
             (commit (emit (Listen (listenWindow s)) s))))"
  using assms
  by (simp add: performEmergencyVerification.simps [of quiet attempt "Heard t # rest" s]
        suspend_quiet listenWindow_def Let_def)

lemma verification_danger:
  assumes "\<not> affirmative (toLowerCase t)" "distress (toLowerCase t)" "t \<noteq> []" "length (trim t) \<noteq> 0"
    "appStateRef s = EMERGENCY_CHECK"
  shows "performEmergencyVerification quiet attempt (Heard t # rest) s =
           triggerEmergencyAction (commit (emit (Listen (listenWindow s)) s))"
  using assms
  by (simp add: performEmergencyVerification.simps [of quiet attempt "Heard t # rest" s]
        suspend_quiet listenWindow_def Let_def)

lemma verification_waiting:
  assumes "appStateRef s = EMERGENCY_CHECK"
  shows "performEmergencyVerification quiet attempt [] s = emit (Listen (listenWindow s)) s"
  using assms
  by (simp add: performEmergencyVerification.simps [of quiet attempt "[]" s] listenWindow_def)

lemma noResponse_last:
  assumes "appStateRef s = EMERGENCY_CHECK"
    "\<not> attempt < (if emergencySeverityRef s = Sev_high then 1 else 2)"
  shows "handleNoResponse quiet attempt rs s = triggerEmergencyAction s"
  using assms by (simp add: handleNoResponse.simps [of quiet attempt rs s])

lemma noResponse_again:
  assumes "appStateRef s = EMERGENCY_CHECK"
    "attempt < (if emergencySeverityRef s = Sev_high then 1 else 2)"
  shows "handleNoResponse quiet attempt rs s =
     performEmergencyVerification quiet (attempt + 1) rs
       (commit (emit (Speak ''I didn't hear you. Please say 'I'm okay' if you are safe.'' True) s))"
  using assms by (simp add: handleNoResponse.simps [of quiet attempt rs s] suspend_quiet)

lemmas fx = commit_fields emit_fields emergencyCheckStart_fields triggerEmergencyAction_fields
  restoreState_fields inferState_mode listenWindow_def

lemma high_run:
  assumes "noResponse r1"
  shows "triggerEmergencyCheck quiet Sev_high (r1 # rest) s =
    triggerEmergencyAction (commit (emit (Listen 20) (commit (emergencyCheckStart Sev_high s))))"
proof -
  let ?s1 = "commit (emergencyCheckStart Sev_high s)"
  have a: "appStateRef ?s1 = EMERGENCY_CHECK" "listenWindow ?s1 = 20"
    by (simp_all add: fx)
  let ?s2 = "commit (emit (Listen 20) ?s1)"
  have b: "appStateRef ?s2 = EMERGENCY_CHECK" "emergencySeverityRef ?s2 = Sev_high"
    by (simp_all add: fx)
  show ?thesis
    unfolding triggerEmergencyCheck_def suspend_quiet
    using verification_noResponse [OF assms a(1), of 1 rest] a b
    by (simp add: noResponse_last)
qed

lemma low_run:
  assumes "noResponse r1" "noResponse r2" "sev \<noteq> Sev_high"
  shows "triggerEmergencyCheck quiet sev (r1 # r2 # rest) s =
    triggerEmergencyAction (commit (emit (Listen 30) (commit (emit
      (Speak ''I didn't hear you. Please say 'I'm okay' if you are safe.'' True)
      (commit (emit (Listen 30) (commit (emergencyCheckStart sev s))))))))"
proof -
  let ?s1 = "commit (emergencyCheckStart sev s)"
  have a: "appStateRef ?s1 = EMERGENCY_CHECK" "listenWindow ?s1 = 30"
    using assms(3) by (simp_all add: fx)
  let ?s2 = "commit (emit (Listen 30) ?s1)"
  have b: "appStateRef ?s2 = EMERGENCY_CHECK" "emergencySeverityRef ?s2 = sev"
    by (simp_all add: fx)
  let ?s3 = "commit (emit (Speak ''I didn't hear you. Please say 'I'm okay' if you are safe.'' True) ?s2)"
  have c: "appStateRef ?s3 = EMERGENCY_CHECK" "listenWindow ?s3 = 30"
    using assms(3) by (simp_all add: fx)
  let ?s4 = "commit (emit (Listen 30) ?s3)"
  have d: "appStateRef ?s4 = EMERGENCY_CHECK" "emergencySeverityRef ?s4 = sev"
    by (simp_all add: fx)
  have "triggerEmergencyCheck quiet sev (r1 # r2 # rest) s = handleNoResponse quiet 1 (r2 # rest) ?s2"
    unfolding triggerEmergencyCheck_def suspend_quiet
    using verification_noResponse [OF assms(1) a(1), of 1 "r2 # rest"] a by simp
  also have "\<dots> = performEmergencyVerification quiet 2 (r2 # rest) ?s3"
    using noResponse_again [of ?s2 1 "r2 # rest"] b assms(3) by (simp add: numeral_2_eq_2)
  also have "\<dots> = handleNoResponse quiet 2 rest ?s4"
    using verification_noResponse [OF assms(2) c(1), of 2 rest] c by simp
  also have "\<dots> = triggerEmergencyAction ?s4"
    using noResponse_last [of ?s4 2 rest] d by simp
  finally show ?thesis .
qed


lemma includes_hd: "includes_str t p \<Longrightarrow> p \<noteq> [] \<Longrightarrow> hd p \<in> set t"
proof (induction t)
  case Nil
  then show ?case by simp
next
  case (Cons c cs)
  show ?case
  proof (cases "startsWith (c # cs) p")
    case True
    with Cons.prems(2) have "hd p = c"
      by (cases p) (simp_all add: startsWith_def)
    then show ?thesis by simp
  next
    case False
    with Cons show ?thesis by simp
  qed
qed

lemma affirmative_letter:
  assumes "affirmative cleaned"
  shows "\<exists>c\<in>set cleaned. c \<in> set ''ofgsy''"
proof -
  have token: "\<exists>c\<in>set cleaned. c \<in> set ''ofgsy''"
    if "includes_str cleaned p" "p \<noteq> []" "hd p \<in> set ''ofgsy''" for p
    using includes_hd [OF that(1,2)] that(3) by blast
  from assms consider "includes_str cleaned ''ok''" | "includes_str cleaned ''fine''"
    | "includes_str cleaned ''good''" | "includes_str cleaned ''safe''"
    | "includes_str cleaned ''yes''"
    unfolding affirmative_def by blast
  then show ?thesis
  proof cases
    case 1 then show ?thesis by (rule token) simp_all
  next
    case 2 then show ?thesis by (rule token) simp_all
  next
    case 3 then show ?thesis by (rule token) simp_all
  next
    case 4 then show ?thesis by (rule token) simp_all
  next
    case 5 then show ?thesis by (rule token) simp_all
  qed
qed

lemma lowerChar_letter: "lowerChar c \<in> set ''ofgsy'' \<Longrightarrow> \<not> isWhiteSpace c"
  by (auto simp add: isWhiteSpace_def lowerChar_def)

lemma trim_nonblank:
  assumes "c \<in> set t" "\<not> isWhiteSpace c"
  shows "trim t \<noteq> []"
proof -
  let ?u = "dropWhile isWhiteSpace t"
  have u: "?u \<noteq> []" using assms by auto
  then have "\<not> isWhiteSpace (hd ?u)" by (rule hd_dropWhile)
  moreover have "hd ?u \<in> set (rev ?u)" using u by simp
  ultimately have "dropWhile isWhiteSpace (rev ?u) \<noteq> []"
    by (auto simp del: set_rev)
  then show ?thesis by (simp add: trim_def)
qed

lemma affirmative_heard:
  assumes "affirmative (toLowerCase t)"
  shows "t \<noteq> []" "length (trim t) \<noteq> 0"
proof -
  from affirmative_letter [OF assms] obtain c where c: "c \<in> set t" "lowerChar c \<in> set ''ofgsy''"
    by (auto simp add: toLowerCase_def)
  then show "t \<noteq> []" by auto
  from c lowerChar_letter have "\<not> isWhiteSpace c" by blast
  with c(1) show "length (trim t) \<noteq> 0" using trim_nonblank by simp
qed

lemma safe_run:
  assumes "affirmative (toLowerCase t)"
  shows "triggerEmergencyCheck quiet sev (Heard t # rest) s =
    restoreState (commit (emit (Speak ''I'm glad you are safe. Resuming.'' False)
      (commit (emit (Listen (if sev = Sev_high then 20 else 30)) (commit (emergencyCheckStart sev s))))))"
proof -
  let ?s1 = "commit (emergencyCheckStart sev s)"
  have a: "appStateRef ?s1 = EMERGENCY_CHECK" "listenWindow ?s1 = (if sev = Sev_high then 20 else 30)"
    by (simp_all add: fx)
  show ?thesis
    unfolding triggerEmergencyCheck_def suspend_quiet
    using verification_safe [OF assms affirmative_heard [OF assms] a(1), of 1 rest] a by simp
qed

lemma danger_run:
  assumes "\<not> affirmative (toLowerCase t)" "distress (toLowerCase t)" "t \<noteq> []" "length (trim t) \<noteq> 0"
  shows "triggerEmergencyCheck quiet sev (Heard t # rest) s =
    triggerEmergencyAction
      (commit (emit (Listen (if sev = Sev_high then 20 else 30)) (commit (emergencyCheckStart sev s))))"
proof -
  let ?s1 = "commit (emergencyCheckStart sev s)"
  have a: "appStateRef ?s1 = EMERGENCY_CHECK" "listenWindow ?s1 = (if sev = Sev_high then 20 else 30)"
    by (simp_all add: fx)
  show ?thesis
    unfolding triggerEmergencyCheck_def suspend_quiet
    using verification_danger [OF assms a(1), of 1 rest] a by simp
qed

lemma low_waiting:
  assumes "noResponse r1" "sev \<noteq> Sev_high"
  shows "triggerEmergencyCheck quiet sev [r1] s =
    emit (Listen 30) (commit (emit
      (Speak ''I didn't hear you. Please say 'I'm okay' if you are safe.'' True)
      (commit (emit (Listen 30) (commit (emergencyCheckStart sev s))))))"
proof -
  let ?s1 = "commit (emergencyCheckStart sev s)"
  have a: "appStateRef ?s1 = EMERGENCY_CHECK" "listenWindow ?s1 = 30"
    using assms(2) by (simp_all add: fx)
  let ?s2 = "commit (emit (Listen 30) ?s1)"
  have b: "appStateRef ?s2 = EMERGENCY_CHECK" "emergencySeverityRef ?s2 = sev"
    by (simp_all add: fx)
  let ?s3 = "commit (emit (Speak ''I didn't hear you. Please say 'I'm okay' if you are safe.'' True) ?s2)"
  have c: "appStateRef ?s3 = EMERGENCY_CHECK" "listenWindow ?s3 = 30"
    using assms(2) by (simp_all add: fx)
  have "triggerEmergencyCheck quiet sev [r1] s = handleNoResponse quiet 1 [] ?s2"
    unfolding triggerEmergencyCheck_def suspend_quiet
    using verification_noResponse [OF assms(1) a(1), of 1 "[]"] a by simp
  also have "\<dots> = performEmergencyVerification quiet 2 [] ?s3"
    using noResponse_again [of ?s2 1 "[]"] b assms(2) by (simp add: numeral_2_eq_2)
  also have "\<dots> = emit (Listen 30) ?s3"
    using verification_waiting [OF c(1), of 2] c by simp
  finally show ?thesis .
qed

lemma okay_is_affirmative: "affirmative (toLowerCase ''I'm okay'')"
  by code_simp

lemma help_is_distress:
  "\<not> affirmative (toLowerCase ''help'')" "distress (toLowerCase ''help'')"
  "''help'' \<noteq> []" "length (trim ''help'') \<noteq> 0"
  by code_simp+

lemma not_okay_has_both:
  "affirmative (toLowerCase ''no, I'm not okay'')" "distress (toLowerCase ''no, I'm not okay'')"
  by code_simp+

lemma sample_noResponse:
  "noResponse (Heard [])" "noResponse (Heard ''   '')" "noResponse ListenFailed"
  "noResponse (Heard ''what?'')"
  by code_simp+

lemma initialSession_fields:
  "effects (abortCurrent (initialSession t)) = [Speak ''SightMate ready. Press to speak.'' False]"
  "isNavigating (initialSession t) = False"
  "isWalkingFeatureActive (initialSession t) = False"
  by (simp_all add: initialSession_def abortCurrent_def)

text \<open>
  C4. With no interference, a check at severity \<open>high\<close> opens one 20-second listen after the
  prompt and, on no response (silence, a failed listen or a reply without keywords), goes to
  \<open>EMERGENCY_ACTING\<close>; at \<open>low\<close> or \<open>medium\<close> the first no-response is answered by the
  re-prompt and a second 30-second listen (the check is still open), and only the second
  no-response goes to \<open>EMERGENCY_ACTING\<close>.
\<close>

theorem emergency_attempts_by_severity:
  assumes "noResponse r1" and "noResponse r2" and "sev \<noteq> Sev_high"
  shows
   "effects (triggerEmergencyCheck quiet Sev_high (r1 # rest) s) =
      effects (abortCurrent s) @
        [StopSpeaking, Speak ''It sounds like something is wrong. Are you okay?'' True,
         Listen 20,
         PlaySound ''warning'',
         Speak ''Emergency help has been contacted. Sending your location now.'' True]
    \<and> appState (triggerEmergencyCheck quiet Sev_high (r1 # rest) s) = EMERGENCY_ACTING
    \<and> effects (triggerEmergencyCheck quiet sev [r1] s) =
      effects (abortCurrent s) @
        [StopSpeaking, Speak ''It sounds like something is wrong. Are you okay?'' True,
         Listen 30,
         Speak ''I didn't hear you. Please say 'I'm okay' if you are safe.'' True,
         Listen 30]
    \<and> appState (triggerEmergencyCheck quiet sev [r1] s) = EMERGENCY_CHECK
    \<and> effects (triggerEmergencyCheck quiet sev (r1 # r2 # rest) s) =
      effects (abortCurrent s) @
        [StopSpeaking, Speak ''It sounds like something is wrong. Are you okay?'' True,
         Listen 30,
         Speak ''I didn't hear you. Please say 'I'm okay' if you are safe.'' True,
         Listen 30,
         PlaySound ''warning'',
         Speak ''Emergency help has been contacted. Sending your location now.'' True]
    \<and> appState (triggerEmergencyCheck quiet sev (r1 # r2 # rest) s) = EMERGENCY_ACTING"
proof -
  have high: "effects (triggerEmergencyCheck quiet Sev_high (r1 # rest) s) =
      effects (abortCurrent s) @
        [StopSpeaking, Speak ''It sounds like something is wrong. Are you okay?'' True,
         Listen 20,
         PlaySound ''warning'',
         Speak ''Emergency help has been contacted. Sending your location now.'' True]"
    "appState (triggerEmergencyCheck quiet Sev_high (r1 # rest) s) = EMERGENCY_ACTING"
    by (simp_all add: high_run [OF assms(1)] fx)
  have one: "effects (triggerEmergencyCheck quiet sev [r1] s) =
      effects (abortCurrent s) @
        [StopSpeaking, Speak ''It sounds like something is wrong. Are you okay?'' True,
         Listen 30,
         Speak ''I didn't hear you. Please say 'I'm okay' if you are safe.'' True,
         Listen 30]"
    "appState (triggerEmergencyCheck quiet sev [r1] s) = EMERGENCY_CHECK"
    using assms(3) by (simp_all add: low_waiting [OF assms(1,3)] fx)
  have two: "effects (triggerEmergencyCheck quiet sev (r1 # r2 # rest) s) =
      effects (abortCurrent s) @
        [StopSpeaking, Speak ''It sounds like something is wrong. Are you okay?'' True,
         Listen 30,
         Speak ''I didn't hear you. Please say 'I'm okay' if you are safe.'' True,
         Listen 30,
         PlaySound ''warning'',
         Speak ''Emergency help has been contacted. Sending your location now.'' True]"
    "appState (triggerEmergencyCheck quiet sev (r1 # r2 # rest) s) = EMERGENCY_ACTING"
    by (simp_all add: low_run [OF assms] fx)
  from high one two show ?thesis by blast
qed

theorem emergency_attempts_by_severity_witness:
  "noResponse (Heard ''what?'') \<and> noResponse ListenFailed \<and> Sev_medium \<noteq> Sev_high
   \<and> effects (triggerEmergencyCheck quiet Sev_high [Heard ''what?''] (initialSession 0)) =
        [Speak ''SightMate ready. Press to speak.'' False,
         StopSpeaking, Speak ''It sounds like something is wrong. Are you okay?'' True,
         Listen 20,
         PlaySound ''warning'',
         Speak ''Emergency help has been contacted. Sending your location now.'' True]
   \<and> appState (triggerEmergencyCheck quiet Sev_medium [Heard ''what?''] (initialSession 0)) =
        EMERGENCY_CHECK
   \<and> appState (triggerEmergencyCheck quiet Sev_medium [Heard ''what?'', ListenFailed]
        (initialSession 0)) = EMERGENCY_ACTING"
  using emergency_attempts_by_severity [OF sample_noResponse(4) sample_noResponse(3),
      of Sev_medium "[]" "initialSession 0"]
    sample_noResponse
  by (simp add: initialSession_fields)

text \<open>
  C5. A reply of exactly "I'm okay" is taken as safe: the protocol says so and calls
  \<open>restoreState\<close>, which gives \<open>NAVIGATING\<close> when the navigating toggle is set, otherwise
  \<open>WALKING\<close> when the walking toggle is set, otherwise \<open>IDLE\<close>. A reply of exactly "help"
  goes to \<open>EMERGENCY_ACTING\<close>.
\<close>

theorem emergency_exact_replies:
  "appState (triggerEmergencyCheck quiet sev (Heard ''I'm okay'' # rest) s) =
      (if isNavigating s then NAVIGATING else if isWalkingFeatureActive s then WALKING else IDLE)
   \<and> effects (triggerEmergencyCheck quiet sev (Heard ''I'm okay'' # rest) s) =
      effects (abortCurrent s) @
        [StopSpeaking, Speak ''It sounds like something is wrong. Are you okay?'' True,
         Listen (if sev = Sev_high then 20 else 30),
         Speak ''I'm glad you are safe. Resuming.'' False]
   \<and> appState (triggerEmergencyCheck quiet sev (Heard ''help'' # rest) s) = EMERGENCY_ACTING
   \<and> effects (triggerEmergencyCheck quiet sev (Heard ''help'' # rest) s) =
      effects (abortCurrent s) @
        [StopSpeaking, Speak ''It sounds like something is wrong. Are you okay?'' True,
         Listen (if sev = Sev_high then 20 else 30),
         PlaySound ''warning'',
         Speak ''Emergency help has been contacted. Sending your location now.'' True]"
  using help_is_distress
  by (simp add: safe_run [OF okay_is_affirmative] danger_run fx)

theorem emergency_exact_replies_witness:
  "appState (triggerEmergencyCheck quiet Sev_medium [Heard ''I'm okay'']
      ((initialSession 0)\<lparr>appState := WALKING, isWalkingFeatureActive := True\<rparr>)) = WALKING
   \<and> appState (triggerEmergencyCheck quiet Sev_medium [Heard ''I'm okay'']
      ((initialSession 0)\<lparr>appState := NAVIGATING, isWalkingFeatureActive := True,
          isNavigating := True\<rparr>)) = NAVIGATING
   \<and> appState (triggerEmergencyCheck quiet Sev_medium [Heard ''help'']
      ((initialSession 0)\<lparr>appState := WALKING, isWalkingFeatureActive := True\<rparr>)) =
        EMERGENCY_ACTING"
  using emergency_exact_replies [of Sev_medium "[]"
      "(initialSession 0)\<lparr>appState := WALKING, isWalkingFeatureActive := True\<rparr>"]
    emergency_exact_replies [of Sev_medium "[]"
      "(initialSession 0)\<lparr>appState := NAVIGATING, isWalkingFeatureActive := True,
          isNavigating := True\<rparr>"]
  by (simp add: initialSession_def)

text \<open>
  C10. The affirmative keywords are tested first: a reply whose lower-cased text contains an
  affirmative keyword and a distress keyword is taken as safe, the check ends with
  \<open>restoreState\<close> and \<open>EMERGENCY_ACTING\<close> is not entered. "no, I'm not okay" is such a reply.
\<close>

theorem affirmative_tested_before_distress:
  assumes "affirmative (toLowerCase reply)" and "distress (toLowerCase reply)"
  shows
   "appState (triggerEmergencyCheck quiet sev (Heard reply # rest) s) =
      (if isNavigating s then NAVIGATING else if isWalkingFeatureActive s then WALKING else IDLE)
    \<and> appState (triggerEmergencyCheck quiet sev (Heard reply # rest) s) \<noteq> EMERGENCY_ACTING
    \<and> effects (triggerEmergencyCheck quiet sev (Heard reply # rest) s) =
      effects (abortCurrent s) @
        [StopSpeaking, Speak ''It sounds like something is wrong. Are you okay?'' True,
         Listen (if sev = Sev_high then 20 else 30),
         Speak ''I'm glad you are safe. Resuming.'' False]"
  by (simp add: safe_run [OF assms(1)] fx)

theorem affirmative_tested_before_distress_witness:
  "affirmative (toLowerCase ''no, I'm not okay'') \<and> distress (toLowerCase ''no, I'm not okay'')
   \<and> appState (triggerEmergencyCheck quiet Sev_high [Heard ''no, I'm not okay'']
        (initialSession 0)) = IDLE
   \<and> effects (triggerEmergencyCheck quiet Sev_high [Heard ''no, I'm not okay'']
        (initialSession 0)) =
        [Speak ''SightMate ready. Press to speak.'' False,
         StopSpeaking, Speak ''It sounds like something is wrong. Are you okay?'' True,
         Listen 20,
         Speak ''I'm glad you are safe. Resuming.'' False]"
  using affirmative_tested_before_distress [OF not_okay_has_both, of Sev_high "[]" "initialSession 0"]
    not_okay_has_both
  by (simp add: initialSession_fields)

section \<open>Properties: perception loop\<close>

lemma commit_emit: "commit (emit e s) = emit e (commit s)"
  by (cases s rule: mode_cases)
     (simp_all add: commit_eq inferState_def syncRefs_def setAppState_def emit_def)

lemma commit_loop_refs:
  "commit (s\<lparr>lastLoopTimeRef := t\<rparr>) = (commit s)\<lparr>lastLoopTimeRef := t\<rparr>"
  "commit (s\<lparr>isAnalyzingFrameRef := b\<rparr>) = (commit s)\<lparr>isAnalyzingFrameRef := b\<rparr>"
  "commit (s\<lparr>lastCompanionMsgRef := t\<rparr>) = (commit s)\<lparr>lastCompanionMsgRef := t\<rparr>"
  by (cases s rule: mode_cases;
      simp add: commit_eq inferState_def syncRefs_def setAppState_def)+

lemma rendered_refs:
  assumes "rendered s"
  shows "appStateRef s = appState s" "isNavigatingRef s = isNavigating s"
    "isWalkingFeatureActiveRef s = isWalkingFeatureActive s"
    "isCompanionModeRef s = isCompanionMode s" "navPlanRef s = navPlan s"
    "stepIndexRef s = currentStepIndex s"
proof -
  have c: "commit s = s" using assms by (simp add: rendered_def)
  have "appStateRef (commit s) = appState (commit s)" 
    by (cases s rule: mode_cases) (simp_all add: commit_eq inferState_def syncRefs_def setAppState_def)
  then show "appStateRef s = appState s" by (simp add: c)
  have "isNavigatingRef (commit s) = isNavigating (commit s)"
    "isWalkingFeatureActiveRef (commit s) = isWalkingFeatureActive (commit s)"
    "isCompanionModeRef (commit s) = isCompanionMode (commit s)"
    "navPlanRef (commit s) = navPlan (commit s)"
    "stepIndexRef (commit s) = currentStepIndex (commit s)"
    by (simp_all add: commit_eq inferState_def syncRefs_def setAppState_def)
  then show "isNavigatingRef s = isNavigating s"
    "isWalkingFeatureActiveRef s = isWalkingFeatureActive s"
    "isCompanionModeRef s = isCompanionMode s" "navPlanRef s = navPlan s"
    "stepIndexRef s = currentStepIndex s"
    by (simp_all add: c)
qed

lemma enter_runs:
  assumes "loopRuns s"
  shows "walkingLoopEnter now s = (s\<lparr>lastLoopTimeRef := now, isAnalyzingFrameRef := True\<rparr>, True)"
  using assms by (auto simp add: walkingLoopEnter_def loopRuns_def Let_def)





lemma emit_emits: "emit e s = emits [e] s"
  by (simp add: emit_def emits_def)

lemma emits_emits: "emits es (emits fs s) = emits (fs @ es) s"
  by (simp add: emits_def)

lemma commit_emits: "commit (emits es s) = emits es (commit s)"
  by (cases s rule: mode_cases)
     (simp_all add: commit_eq inferState_def syncRefs_def setAppState_def emits_def)

lemma emits_fields:
  "effects (emits es s) = effects s @ es"
  "appState (emits es s) = appState s"
  "appStateRef (emits es s) = appStateRef s"
  "isCompanionModeRef (emits es s) = isCompanionModeRef s"
  "lastCompanionMsgRef (emits es s) = lastCompanionMsgRef s"
  "abortControllerRef (emits es s) = abortControllerRef s"
  "isAnalyzingFrameRef (emits es s) = isAnalyzingFrameRef s"
  "emergencySeverityRef (emits es s) = emergencySeverityRef s"
  by (simp_all add: emits_def)

lemma body_captures:
  assumes "commit s = s"
  shows "walkingCycleBody env quiet s =
     (if frameMissing (cycleFrame env) then emits (captureEffects env) s
      else
        case analyzeWalkingSafety (hazardResponse env) (abortedDuringAnalysis env)
               (emits (captureEffects env) s) of
          (hazard, s3) \<Rightarrow>
            (case hazard of
               None \<Rightarrow> walkingReaction env quiet hazard (commit s3)
             | Some h \<Rightarrow>
                 if hazard_type h \<noteq> [] \<and> category h = Cat_fall
                 then emergencyCheckStart Sev_high (commit s3)
                 else walkingReaction env quiet hazard (commit s3)))"
proof (cases "frameMissing (capture1 env)")
  case True
  then show ?thesis
    using assms
    by (simp add: walkingCycleBody_def Let_def suspend_quiet emit_emits commit_emits emits_emits
        cycleFrame_def captureEffects_def)
next
  case False
  then show ?thesis
    using assms
    by (simp add: walkingCycleBody_def Let_def suspend_quiet emit_emits commit_emits emits_emits
        cycleFrame_def captureEffects_def)
qed

lemma analysis_cases:
  "analyzeWalkingSafety response abortedAfter s =
     (if abortControllerRef s = Some True then (None, s)
      else (case response of Parsed h \<Rightarrow> if abortedAfter then None else Some h | _ \<Rightarrow> None,
            emits [HazardRequest] s))"
  by (simp add: analyzeWalkingSafety_def Let_def emit_emits split: api_response.splits)


lemma finally_fields:
  "isAnalyzingFrameRef (walkingCycleFinally x) = False"
  "appState (walkingCycleFinally x) = appState x"
  "appStateRef (walkingCycleFinally x) = appStateRef x"
  "effects (walkingCycleFinally x) =
     effects x @ (if appStateRef x = WALKING \<or> appStateRef x = NAVIGATING
                  then [ScheduleWalkingLoop 100] else [])"
  "emergencySeverityRef (walkingCycleFinally x) = emergencySeverityRef x"
  "lastCompanionMsgRef (walkingCycleFinally x) = lastCompanionMsgRef x"
  by (auto simp add: walkingCycleFinally_def Let_def emit_def WALKING_LOOP_DELAY_def)

lemma fall_cycle:
  assumes "rendered s" "loopRuns s"
    and "\<not> frameMissing (cycleFrame env)"
    and "abortControllerRef s \<noteq> Some True" "hazardResponse env = Parsed h"
      "\<not> abortedDuringAnalysis env"
    and "category h = Cat_fall" "hazard_type h \<noteq> []"
  shows "runWalkingLoop env quiet s =
     walkingCycleFinally (emergencyCheckStart Sev_high
       (emits (captureEffects env @ [HazardRequest])
          (s\<lparr>lastLoopTimeRef := loopNow env, isAnalyzingFrameRef := True\<rparr>)))"
proof -
  let ?s1 = "s\<lparr>lastLoopTimeRef := loopNow env, isAnalyzingFrameRef := True\<rparr>"
  have c: "commit ?s1 = ?s1"
    using assms(1) by (simp add: rendered_def commit_loop_refs)
  have "runWalkingLoop env quiet s = walkingCycleFinally (walkingCycleBody env quiet ?s1)"
    by (simp add: runWalkingLoop_def enter_runs [OF assms(2)])
  also have "walkingCycleBody env quiet ?s1 =
      emergencyCheckStart Sev_high (emits (captureEffects env @ [HazardRequest]) ?s1)"
    using assms(3-) c
    by (simp add: body_captures [OF c] analysis_cases emits_fields emits_emits commit_emits)
  finally show ?thesis .
qed

lemma walkingSession_ok: "rendered walkingSession" "loopRuns walkingSession"
  by code_simp+

lemma entered_rendered:
  assumes "rendered s"
  shows "commit (s\<lparr>lastLoopTimeRef := t, isAnalyzingFrameRef := b\<rparr>) =
           s\<lparr>lastLoopTimeRef := t, isAnalyzingFrameRef := b\<rparr>"
  using assms by (simp add: rendered_def commit_loop_refs)

lemma cycle_body:
  assumes "rendered s" "loopRuns s"
  shows "runWalkingLoop env quiet s =
     walkingCycleFinally (walkingCycleBody env quiet
       (s\<lparr>lastLoopTimeRef := loopNow env, isAnalyzingFrameRef := True\<rparr>))"
  by (simp add: runWalkingLoop_def enter_runs [OF assms(2)])

lemma hazard_cycle:
  assumes "cycleReturns env s h"
    and "\<not> (hazard_type h \<noteq> [] \<and> category h = Cat_fall)"
    and "hazard_type h \<noteq> ''none''" "message h \<noteq> []"
  shows "runWalkingLoop env quiet s =
     walkingCycleFinally
       ((emits (captureEffects env @ [HazardRequest, StopSpeaking, Speak (message h) True])
          (s\<lparr>lastLoopTimeRef := loopNow env, isAnalyzingFrameRef := True\<rparr>))
        \<lparr>lastCompanionMsgRef := afterSpeechNow env\<rparr>)"
proof -
  let ?s1 = "s\<lparr>lastLoopTimeRef := loopNow env, isAnalyzingFrameRef := True\<rparr>"
  from assms(1) have r: "rendered s" "loopRuns s" and rest: "\<not> frameMissing (cycleFrame env)"
    "abortControllerRef s \<noteq> Some True" "hazardResponse env = Parsed h" "\<not> abortedDuringAnalysis env"
    by (simp_all add: cycleReturns_def)
  have c: "commit ?s1 = ?s1" by (rule entered_rendered [OF r(1)])
  have m: "appStateRef ?s1 = WALKING \<or> appStateRef ?s1 = NAVIGATING"
    using r(2) by (simp add: loopRuns_def)
  have "walkingCycleBody env quiet ?s1 =
      (emits (captureEffects env @ [HazardRequest, StopSpeaking, Speak (message h) True]) ?s1)
        \<lparr>lastCompanionMsgRef := afterSpeechNow env\<rparr>"
    using rest assms(2-) c m
    by (auto simp add: body_captures [OF c] analysis_cases emits_fields emits_emits commit_emits
        walkingReaction_def suspend_quiet emit_emits)
  then show ?thesis by (simp add: cycle_body [OF r])
qed

lemma companion_quiet:
  assumes "commit x = x"
  shows "companionLogic env quiet x =
     (if isCompanionModeRef x \<and> \<not> speakingNow env \<and> companionNow env - lastCompanionMsgRef x > 15000
      then (emits [Speak (COMPANION_PHRASES ! (phraseIndex env mod length COMPANION_PHRASES)) False] x)
             \<lparr>lastCompanionMsgRef := companionNow env\<rparr>
      else if \<not> isCompanionModeRef x \<and> rareClear env \<and> \<not> speakingNow env
      then emits [Speak ''Path clear.'' False] x
      else x)"
  using assms
  by (simp add: companionLogic_def suspend_quiet emit_emits commit_emits)


lemma fall_cycle':
  assumes "cycleReturns env s h" "category h = Cat_fall" "hazard_type h \<noteq> []"
  shows "runWalkingLoop env quiet s =
     walkingCycleFinally (emergencyCheckStart Sev_high
       (emits (captureEffects env @ [HazardRequest])
          (s\<lparr>lastLoopTimeRef := loopNow env, isAnalyzingFrameRef := True\<rparr>)))"
  using assms fall_cycle [of s env h] by (simp add: cycleReturns_def)

lemma emergencyCheckStart_more:
  "appStateRef (emergencyCheckStart sev s) = appStateRef s"
  "lastCompanionMsgRef (emergencyCheckStart sev s) = lastCompanionMsgRef s"
  "isAnalyzingFrameRef (emergencyCheckStart sev s) = isAnalyzingFrameRef s"
  "effects (abortCurrent s) = effects s @ (if abortControllerRef s = None then [] else [AbortInFlight])"
  by (simp_all add: emergencyCheckStart_def emit_def setAppState_def clearNavTimer_def abortCurrent_def
      split: option.splits)

lemma abortCurrent_emits:
  "effects (abortCurrent (emits es s)) =
     effects s @ es @ (if abortControllerRef s = None then [] else [AbortInFlight])"
  by (simp add: abortCurrent_def emits_def emit_def split: option.splits)

lemma cycle_stages:
  assumes "loopRuns s" "\<not> frameMissing (cycleFrame env)"
  shows "runWalkingLoop env oth s =
     walkingCycleFinally
       (case analysisResult env oth s of
          None \<Rightarrow> walkingReaction env oth None (afterAnalysis env oth s)
        | Some h \<Rightarrow>
            if hazard_type h \<noteq> [] \<and> category h = Cat_fall
            then emergencyCheckStart Sev_high (afterAnalysis env oth s)
            else walkingReaction env oth (Some h) (afterAnalysis env oth s))"
proof (cases "frameMissing (capture1 env)")
  case True
  with assms(2) show ?thesis
    by (simp add: runWalkingLoop_def enter_runs [OF assms(1)] walkingCycleBody_def Let_def
        cycleFrame_def analysisResult_def afterAnalysis_def afterCaptures_def entered_def
        split: prod.splits option.splits)
next
  case False
  with assms(2) show ?thesis
    by (simp add: runWalkingLoop_def enter_runs [OF assms(1)] walkingCycleBody_def Let_def
        cycleFrame_def analysisResult_def afterAnalysis_def afterCaptures_def entered_def
        split: prod.splits option.splits)
qed

lemma fall_cycle_any:
  assumes "loopRuns s" "\<not> frameMissing (cycleFrame env)" "analysisResult env oth s = Some h"
    "category h = Cat_fall" "hazard_type h \<noteq> []"
  shows "runWalkingLoop env oth s =
     walkingCycleFinally (emergencyCheckStart Sev_high (afterAnalysis env oth s))"
  using assms(3-) by (simp add: cycle_stages [OF assms(1,2)])


text \<open>
  C3 (as amended). In a cycle whose analysis returns a hazard with category \<open>fall\<close> and a
  non-empty \<open>hazard_type\<close>, whatever its message and whatever the other handlers do at the
  awaits, the cycle resumes from the analysis with the start of the emergency check at
  severity \<open>high\<close> and goes to \<open>finally\<close>. Undisturbed, this is all it adds to the speech
  channel (the "are you okay" prompt with priority): no hazard message, no filler, no
  "Path clear."; the mode is \<open>EMERGENCY_CHECK\<close>, the companion timer is untouched and the
  guard is released.
\<close>

theorem fall_short_circuit:
  assumes "category h = Cat_fall" and "hazard_type h \<noteq> []"
  shows
   "(loopRuns s \<and> \<not> frameMissing (cycleFrame env) \<and> analysisResult env oth s = Some h \<longrightarrow>
       runWalkingLoop env oth s =
         walkingCycleFinally (emergencyCheckStart Sev_high (afterAnalysis env oth s)))
    \<and> (cycleReturns env s h \<longrightarrow>
         effects (runWalkingLoop env quiet s) =
           effects s @ captureEffects env @ [HazardRequest]
             @ (if abortControllerRef s = None then [] else [AbortInFlight])
             @ [StopSpeaking, Speak ''It sounds like something is wrong. Are you okay?'' True,
                ScheduleWalkingLoop 100]
         \<and> appState (runWalkingLoop env quiet s) = EMERGENCY_CHECK
         \<and> emergencySeverityRef (runWalkingLoop env quiet s) = Sev_high
         \<and> lastCompanionMsgRef (runWalkingLoop env quiet s) = lastCompanionMsgRef s
         \<and> \<not> isAnalyzingFrameRef (runWalkingLoop env quiet s))"
proof -
  have any: "loopRuns s \<and> \<not> frameMissing (cycleFrame env) \<and> analysisResult env oth s = Some h \<longrightarrow>
       runWalkingLoop env oth s =
         walkingCycleFinally (emergencyCheckStart Sev_high (afterAnalysis env oth s))"
    using fall_cycle_any [of s env oth h] assms by blast
  have undisturbed: "cycleReturns env s h \<longrightarrow>
         effects (runWalkingLoop env quiet s) =
           effects s @ captureEffects env @ [HazardRequest]
             @ (if abortControllerRef s = None then [] else [AbortInFlight])
             @ [StopSpeaking, Speak ''It sounds like something is wrong. Are you okay?'' True,
                ScheduleWalkingLoop 100]
         \<and> appState (runWalkingLoop env quiet s) = EMERGENCY_CHECK
         \<and> emergencySeverityRef (runWalkingLoop env quiet s) = Sev_high
         \<and> lastCompanionMsgRef (runWalkingLoop env quiet s) = lastCompanionMsgRef s
         \<and> \<not> isAnalyzingFrameRef (runWalkingLoop env quiet s)"
  proof
    assume c: "cycleReturns env s h"
    then have m: "appStateRef s = WALKING \<or> appStateRef s = NAVIGATING"
      by (simp add: cycleReturns_def loopRuns_def)
    show "effects (runWalkingLoop env quiet s) =
           effects s @ captureEffects env @ [HazardRequest]
             @ (if abortControllerRef s = None then [] else [AbortInFlight])
             @ [StopSpeaking, Speak ''It sounds like something is wrong. Are you okay?'' True,
                ScheduleWalkingLoop 100]
         \<and> appState (runWalkingLoop env quiet s) = EMERGENCY_CHECK
         \<and> emergencySeverityRef (runWalkingLoop env quiet s) = Sev_high
         \<and> lastCompanionMsgRef (runWalkingLoop env quiet s) = lastCompanionMsgRef s
         \<and> \<not> isAnalyzingFrameRef (runWalkingLoop env quiet s)"
      using m
      by (simp add: fall_cycle' [OF c assms] finally_fields emergencyCheckStart_fields
          emergencyCheckStart_more emits_fields abortCurrent_emits)
  qed
  from any undisturbed show ?thesis by blast
qed

lemma sample_cycles:
  "cycleReturns (cycleEnv h) walkingSession h"
  "captureEffects (cycleEnv h) = [CaptureFrame True True]"
  "afterSpeechNow (cycleEnv h) = 4000"
  "effects walkingSession = []"
  "abortControllerRef walkingSession = Some False"
  "appState walkingSession = WALKING"
  "appStateRef walkingSession = WALKING"
  "isCompanionModeRef walkingSession"
  "lastCompanionMsgRef walkingSession = 2000"
  "companionNow (cycleEnv h) = 3500"
  "speakingNow (cycleEnv h) = False"
  using walkingSession_ok
  by (simp_all add: cycleReturns_def cycleEnv_def cycleFrame_def frameMissing_def
      captureEffects_def) (simp_all add: walkingSession_def)

lemma sample_hazards:
  "category (hazardOf t c m) = c" "hazard_type (hazardOf t c m) = t"
  "message (hazardOf t c m) = m"
  by (simp_all add: hazardOf_def)

theorem fall_short_circuit_witness:
  "cycleReturns (cycleEnv (hazardOf ''fall'' Cat_fall ''Watch out'')) walkingSession
      (hazardOf ''fall'' Cat_fall ''Watch out'')
   \<and> category (hazardOf ''fall'' Cat_fall ''Watch out'') = Cat_fall
   \<and> hazard_type (hazardOf ''fall'' Cat_fall ''Watch out'') \<noteq> []
   \<and> effects (runWalkingLoop (cycleEnv (hazardOf ''fall'' Cat_fall ''Watch out'')) quiet
        walkingSession) =
        [CaptureFrame True True, HazardRequest, AbortInFlight, StopSpeaking,
         Speak ''It sounds like something is wrong. Are you okay?'' True,
         ScheduleWalkingLoop 100]
   \<and> appState (runWalkingLoop (cycleEnv (hazardOf ''fall'' Cat_fall ''Watch out'')) quiet
        walkingSession) = EMERGENCY_CHECK"
  using fall_short_circuit [of "hazardOf ''fall'' Cat_fall ''Watch out''"
      walkingSession "cycleEnv (hazardOf ''fall'' Cat_fall ''Watch out'')" quiet, THEN conjunct2]
  by (simp add: sample_cycles sample_hazards)

theorem fall_short_circuit_counterexample:
  "category (hazardOf [] Cat_fall ''Watch out'') = Cat_fall
   \<and> appState (runWalkingLoop (cycleEnv (hazardOf [] Cat_fall ''Watch out'')) quiet
        walkingSession) = WALKING
   \<and> effects (runWalkingLoop (cycleEnv (hazardOf [] Cat_fall ''Watch out'')) quiet
        walkingSession) =
        [CaptureFrame True True, HazardRequest, StopSpeaking, Speak ''Watch out'' True,
         ScheduleWalkingLoop 100]"
  by (simp add: hazard_cycle [of "cycleEnv (hazardOf [] Cat_fall ''Watch out'')" walkingSession
        "hazardOf [] Cat_fall ''Watch out''"]
      sample_cycles sample_hazards finally_fields emits_fields)









lemma body_retry:
  assumes "frameMissing (capture1 env)" "frameMissing (capture2 env)"
  shows "walkingCycleBody env oth x =
     suspend oth AwaitRetryCapture (emit (CaptureFrame True True)
       (suspend oth AwaitDelay (emit (Delay 100)
         (suspend oth AwaitCapture (emit (CaptureFrame True True) x)))))"
  using assms by (simp add: walkingCycleBody_def Let_def)

lemma requests_simps:
  "requests (emits es x) = requests x + count_list es HazardRequest"
  "requests (commit x) = requests x"
  "requests (walkingCycleFinally x) = requests x"
  "requests (emergencyCheckStart sev x) = requests x"
  "requests (x\<lparr>lastLoopTimeRef := t, isAnalyzingFrameRef := b\<rparr>) = requests x"
  "requests (x\<lparr>lastCompanionMsgRef := t\<rparr>) = requests x"
  by (simp_all add: requests_def emits_fields commit_fields finally_fields
      emergencyCheckStart_fields emergencyCheckStart_more)

lemma requests_companion:
  assumes "commit x = x"
  shows "requests (companionLogic env quiet x) = requests x"
  by (simp add: companion_quiet [OF assms] requests_simps)

lemma requests_reaction:
  assumes "commit x = x"
  shows "requests (walkingReaction env quiet hz x) = requests x"
  using assms
  by (simp add: walkingReaction_def requests_companion suspend_quiet emit_emits commit_emits
      requests_simps emits_emits split: option.splits)

lemma captured_requests:
  "count_list (captureEffects env) HazardRequest = 0"
  by (simp add: captureEffects_def)

lemma requests_body:
  assumes "commit x = x"
  shows "requests (walkingCycleBody env quiet x) =
     requests x + (if frameMissing (cycleFrame env) \<or> abortControllerRef x = Some True then 0 else 1)"
proof -
  let ?y = "emits (captureEffects env) x"
  have y: "commit ?y = ?y" using assms by (simp add: commit_emits)
  have z: "commit (emits [HazardRequest] ?y) = emits [HazardRequest] ?y"
    using y by (simp add: commit_emits)
  show ?thesis
    using y z
    by (simp add: body_captures [OF assms] analysis_cases requests_simps requests_reaction
        captured_requests emits_fields split: option.splits)
qed

lemma skip_cycle:
  assumes "loopRuns s" "frameMissing (capture1 env)" "frameMissing (capture2 env)"
  shows "runWalkingLoop env oth s =
     walkingCycleFinally
       (suspend oth AwaitRetryCapture (emit (CaptureFrame True True)
         (suspend oth AwaitDelay (emit (Delay 100)
           (suspend oth AwaitCapture (emit (CaptureFrame True True)
             (s\<lparr>lastLoopTimeRef := loopNow env, isAnalyzingFrameRef := True\<rparr>)))))))"
  by (simp add: runWalkingLoop_def enter_runs [OF assms(1)] body_retry [OF assms(2,3)])

lemma skip_cycle_quiet:
  assumes "rendered s" "loopRuns s" "frameMissing (capture1 env)" "frameMissing (capture2 env)"
  shows "runWalkingLoop env quiet s =
     walkingCycleFinally
       (emits [CaptureFrame True True, Delay 100, CaptureFrame True True]
          (s\<lparr>lastLoopTimeRef := loopNow env, isAnalyzingFrameRef := True\<rparr>))"
  using entered_rendered [OF assms(1)]
  by (simp add: skip_cycle [OF assms(2-)] suspend_quiet emit_emits commit_emits emits_emits)

lemma requests_cycle:
  assumes "rendered s" "loopRuns s"
  shows "requests (runWalkingLoop env quiet s) =
     requests s + (if frameMissing (cycleFrame env) \<or> abortControllerRef s = Some True then 0 else 1)"
  using entered_rendered [OF assms(1)]
  by (simp add: cycle_body [OF assms] requests_simps requests_body)

text \<open>
  C9 (as amended). For a cycle that has passed the guards: when both captures fail, the cycle
  is exactly capture, 100 ms delay, capture, \<open>finally\<close>, whatever the other handlers do at the
  three awaits; \<open>finally\<close> releases the guard, leaves the mode alone and schedules the next
  cycle exactly when the mode ref is still \<open>WALKING\<close> or \<open>NAVIGATING\<close>; undisturbed, the next
  cycle is scheduled and nothing is spoken. The analysis is requested at most once per cycle,
  and exactly once when the request fails.
\<close>

theorem capture_retry_then_skip:
  assumes "loopRuns s"
  shows
   "(frameMissing (capture1 env) \<and> frameMissing (capture2 env) \<longrightarrow>
       runWalkingLoop env oth s =
         walkingCycleFinally
           (suspend oth AwaitRetryCapture (emit (CaptureFrame True True)
             (suspend oth AwaitDelay (emit (Delay 100)
               (suspend oth AwaitCapture (emit (CaptureFrame True True)
                 (s\<lparr>lastLoopTimeRef := loopNow env, isAnalyzingFrameRef := True\<rparr>))))))))
    \<and> (\<forall>x. \<not> isAnalyzingFrameRef (walkingCycleFinally x)
           \<and> appState (walkingCycleFinally x) = appState x
           \<and> effects (walkingCycleFinally x) =
               effects x @ (if appStateRef x = WALKING \<or> appStateRef x = NAVIGATING
                            then [ScheduleWalkingLoop 100] else []))
    \<and> (rendered s \<and> frameMissing (capture1 env) \<and> frameMissing (capture2 env) \<longrightarrow>
         effects (runWalkingLoop env quiet s) =
           effects s @ [CaptureFrame True True, Delay 100, CaptureFrame True True,
                        ScheduleWalkingLoop 100]
         \<and> appState (runWalkingLoop env quiet s) = appState s
         \<and> \<not> isAnalyzingFrameRef (runWalkingLoop env quiet s))
    \<and> (rendered s \<longrightarrow> requests (runWalkingLoop env quiet s) \<le> requests s + 1)
    \<and> (rendered s \<and> \<not> frameMissing (cycleFrame env) \<and> abortControllerRef s \<noteq> Some True
          \<and> (hazardResponse env = ApiError \<or> hazardResponse env = Unparsable) \<longrightarrow>
         requests (runWalkingLoop env quiet s) = requests s + 1)"
proof -
  have m: "appStateRef s = WALKING \<or> appStateRef s = NAVIGATING"
    using assms by (simp add: loopRuns_def)
  have one: "frameMissing (capture1 env) \<and> frameMissing (capture2 env) \<longrightarrow>
       runWalkingLoop env oth s =
         walkingCycleFinally
           (suspend oth AwaitRetryCapture (emit (CaptureFrame True True)
             (suspend oth AwaitDelay (emit (Delay 100)
               (suspend oth AwaitCapture (emit (CaptureFrame True True)
                 (s\<lparr>lastLoopTimeRef := loopNow env, isAnalyzingFrameRef := True\<rparr>)))))))"
    using skip_cycle [OF assms] by blast
  have two: "\<forall>x. \<not> isAnalyzingFrameRef (walkingCycleFinally x)
           \<and> appState (walkingCycleFinally x) = appState x
           \<and> effects (walkingCycleFinally x) =
               effects x @ (if appStateRef x = WALKING \<or> appStateRef x = NAVIGATING
                            then [ScheduleWalkingLoop 100] else [])"
    by (simp add: finally_fields)
  have three: "rendered s \<and> frameMissing (capture1 env) \<and> frameMissing (capture2 env) \<longrightarrow>
         effects (runWalkingLoop env quiet s) =
           effects s @ [CaptureFrame True True, Delay 100, CaptureFrame True True,
                        ScheduleWalkingLoop 100]
         \<and> appState (runWalkingLoop env quiet s) = appState s
         \<and> \<not> isAnalyzingFrameRef (runWalkingLoop env quiet s)"
    using m by (clarsimp simp add: skip_cycle_quiet [OF _ assms] finally_fields emits_fields)
  have four: "rendered s \<longrightarrow> requests (runWalkingLoop env quiet s) \<le> requests s + 1"
    by (simp add: requests_cycle [OF _ assms])
  have five: "rendered s \<and> \<not> frameMissing (cycleFrame env) \<and> abortControllerRef s \<noteq> Some True
          \<and> (hazardResponse env = ApiError \<or> hazardResponse env = Unparsable) \<longrightarrow>
         requests (runWalkingLoop env quiet s) = requests s + 1"
    by (simp add: requests_cycle [OF _ assms])
  from one two three four five show ?thesis by blast
qed

lemma noFrame: "frameMissing (capture1 noFrameEnv)" "frameMissing (capture2 noFrameEnv)"
  "loopNow noFrameEnv = 3000"
  by (simp_all add: noFrameEnv_def frameMissing_def)

theorem capture_retry_then_skip_witness:
  "loopRuns walkingSession \<and> rendered walkingSession
   \<and> frameMissing (capture1 noFrameEnv) \<and> frameMissing (capture2 noFrameEnv)
   \<and> effects (runWalkingLoop noFrameEnv quiet walkingSession) =
       [CaptureFrame True True, Delay 100, CaptureFrame True True, ScheduleWalkingLoop 100]
   \<and> appState (runWalkingLoop noFrameEnv quiet walkingSession) = WALKING
   \<and> \<not> isAnalyzingFrameRef (runWalkingLoop noFrameEnv quiet walkingSession)
   \<and> requests (runWalkingLoop noFrameEnv quiet walkingSession) \<le> 1"
  using capture_retry_then_skip [OF walkingSession_ok(2), of noFrameEnv quiet,
      THEN conjunct2, THEN conjunct2, THEN conjunct1]
    capture_retry_then_skip [OF walkingSession_ok(2), of noFrameEnv quiet,
      THEN conjunct2, THEN conjunct2, THEN conjunct2, THEN conjunct1]
    walkingSession_ok noFrame
  by (simp add: sample_cycles requests_def)

lemma press_sample:
  "suspend pressDuringCapture AwaitCapture (emit (CaptureFrame True True)
     (walkingSession\<lparr>lastLoopTimeRef := 3000, isAnalyzingFrameRef := True\<rparr>)) =
   walkingSession\<lparr>lastLoopTimeRef := 3000, isAnalyzingFrameRef := True,
     lastButtonPressRef := 5000, interactionIdRef := 5000, appState := LISTENING,
     appStateRef := LISTENING,
     effects := [CaptureFrame True True, AbortInFlight, StopSpeaking, Vibrate 50, Listen 45]\<rparr>"
  by code_simp

theorem capture_retry_then_skip_counterexample:
  "loopRuns walkingSession
   \<and> frameMissing (capture1 noFrameEnv) \<and> frameMissing (capture2 noFrameEnv)
   \<and> effects (runWalkingLoop noFrameEnv pressDuringCapture walkingSession) =
       [CaptureFrame True True, AbortInFlight, StopSpeaking, Vibrate 50, Listen 45,
        Delay 100, CaptureFrame True True]
   \<and> appStateRef (runWalkingLoop noFrameEnv pressDuringCapture walkingSession) = LISTENING
   \<and> ScheduleWalkingLoop 100 \<notin>
       set (effects (runWalkingLoop noFrameEnv pressDuringCapture walkingSession))"
proof -
  have run: "runWalkingLoop noFrameEnv pressDuringCapture walkingSession =
     walkingCycleFinally
       (suspend pressDuringCapture AwaitRetryCapture (emit (CaptureFrame True True)
         (suspend pressDuringCapture AwaitDelay (emit (Delay 100)
           (walkingSession\<lparr>lastLoopTimeRef := 3000, isAnalyzingFrameRef := True,
              lastButtonPressRef := 5000, interactionIdRef := 5000, appState := LISTENING,
              appStateRef := LISTENING,
              effects := [CaptureFrame True True, AbortInFlight, StopSpeaking, Vibrate 50,
                Listen 45]\<rparr>)))))"
    by (simp add: skip_cycle [OF walkingSession_ok(2) noFrame(1,2)] noFrame(3) press_sample)
  have eval: "effects (runWalkingLoop noFrameEnv pressDuringCapture walkingSession) =
       [CaptureFrame True True, AbortInFlight, StopSpeaking, Vibrate 50, Listen 45,
        Delay 100, CaptureFrame True True]"
    "appStateRef (runWalkingLoop noFrameEnv pressDuringCapture walkingSession) = LISTENING"
    unfolding run by code_simp+
  from eval walkingSession_ok(2) noFrame show ?thesis by simp
qed

lemma enter_guard:
  "isAnalyzingFrameRef (fst (walkingLoopEnter now x)) = (isAnalyzingFrameRef x \<or> snd (walkingLoopEnter now x))"
  "snd (walkingLoopEnter now x) \<Longrightarrow> \<not> isAnalyzingFrameRef x"
  by (auto simp add: walkingLoopEnter_def Let_def split: if_splits)

lemma enter_dropped:
  "isAnalyzingFrameRef x \<Longrightarrow> walkingLoopEnter now x = (x\<lparr>lastLoopTimeRef := now\<rparr>, False)"
  by (auto simp add: walkingLoopEnter_def Let_def)

lemma step_consistent:
  assumes "\<not> restartsInFlight e c" "guardConsistent c"
  shows "guardConsistent (loopStep e c)"
proof (cases c)
  case (Pair s n)
  show ?thesis
  proof (cases e)
    case (Invoke now)
    with Pair assms(2) enter_guard [of now s] show ?thesis
      by (auto simp add: guardConsistent_def split: prod.splits)
  next
    case Finish
    with Pair assms(2) show ?thesis
      by (auto simp add: guardConsistent_def finally_fields)
  next
    case (Watchdog now)
    show ?thesis
    proof (cases "watchdogFires now s")
      case False
      with Pair Watchdog assms(2) show ?thesis
        by (auto simp add: watchdogFires_def)
    next
      case True
      with Pair Watchdog assms have free: "n = 0" "\<not> isAnalyzingFrameRef s"
        by (simp_all add: guardConsistent_def split: if_splits)
      obtain s1 acquired where r:
        "walkingLoopEnter now (s\<lparr>isAnalyzingFrameRef := False\<rparr>) = (s1, acquired)"
        by (cases "walkingLoopEnter now (s\<lparr>isAnalyzingFrameRef := False\<rparr>)")
      have "isAnalyzingFrameRef s1 = acquired"
        using enter_guard(1) [of now "s\<lparr>isAnalyzingFrameRef := False\<rparr>"] r by simp
      with True Pair Watchdog free r show ?thesis
        by (simp add: guardConsistent_def watchdogFires_def emit_def)
    qed
  next
    case (ModeChange m w nv)
    with Pair assms(2) show ?thesis
      by (simp add: guardConsistent_def)
  qed
qed

lemma run_consistent:
  assumes "undisturbed es c" "guardConsistent c"
  shows "guardConsistent (loopRun es c)"
  using assms
proof (induction es arbitrary: c)
  case Nil
  then show ?case by simp
next
  case (Cons e es)
  then show ?case by (simp add: step_consistent)
qed

text \<open>
  C6 (as amended). In every interleaving of loop invocations, cycle ends, mode changes and
  watchdog intervals in which the watchdog does not restart the loop while a cycle is in
  flight, at most one cycle is in flight, and the guard is held exactly when one is; an
  invocation that finds the guard held only stamps the heartbeat, and the guard is acquired
  only when it is free.
\<close>

theorem single_cycle_unless_restarted:
  assumes "undisturbed es (s, 0)" and "\<not> isAnalyzingFrameRef s"
  shows "snd (loopRun es (s, 0)) \<le> 1
     \<and> (isAnalyzingFrameRef (fst (loopRun es (s, 0))) \<longleftrightarrow> snd (loopRun es (s, 0)) = 1)
     \<and> (\<forall>now x n. isAnalyzingFrameRef x \<longrightarrow>
           loopStep (Invoke now) (x, n) = (x\<lparr>lastLoopTimeRef := now\<rparr>, n))
     \<and> (\<forall>now x. snd (walkingLoopEnter now x) \<longrightarrow> \<not> isAnalyzingFrameRef x)"
proof -
  have "guardConsistent (s, 0)" using assms(2) by (simp add: guardConsistent_def)
  from run_consistent [OF assms(1) this]
  have "snd (loopRun es (s, 0)) = (if isAnalyzingFrameRef (fst (loopRun es (s, 0))) then 1 else 0)"
    by (simp add: guardConsistent_def)
  then have a: "snd (loopRun es (s, 0)) \<le> 1"
    "isAnalyzingFrameRef (fst (loopRun es (s, 0))) \<longleftrightarrow> snd (loopRun es (s, 0)) = 1"
    by (simp_all split: if_splits)
  have b: "\<forall>now x n. isAnalyzingFrameRef x \<longrightarrow>
           loopStep (Invoke now) (x, n) = (x\<lparr>lastLoopTimeRef := now\<rparr>, n)"
    by (simp add: enter_dropped)
  have c: "\<forall>now x. snd (walkingLoopEnter now x) \<longrightarrow> \<not> isAnalyzingFrameRef x"
    using enter_guard(2) by blast
  from a b c show ?thesis by blast
qed

lemma sample_run:
  "undisturbed
     [ModeChange WALKING True False, Invoke 0, Invoke 50, Watchdog 2000, Finish, Watchdog 4000]
     (initialSession 0, 0)"
  "\<not> isAnalyzingFrameRef (initialSession 0)"
  "snd (loopRun
     [ModeChange WALKING True False, Invoke 0, Invoke 50, Watchdog 2000, Finish, Watchdog 4000]
     (initialSession 0, 0)) = 1"
  by code_simp+

theorem single_cycle_unless_restarted_witness:
  "undisturbed
     [ModeChange WALKING True False, Invoke 0, Invoke 50, Watchdog 2000, Finish, Watchdog 4000]
     (initialSession 0, 0)
   \<and> \<not> isAnalyzingFrameRef (initialSession 0)
   \<and> snd (loopRun
        [ModeChange WALKING True False, Invoke 0, Invoke 50, Watchdog 2000, Finish, Watchdog 4000]
        (initialSession 0, 0)) \<le> 1
   \<and> isAnalyzingFrameRef (fst (loopRun
        [ModeChange WALKING True False, Invoke 0, Invoke 50, Watchdog 2000, Finish, Watchdog 4000]
        (initialSession 0, 0)))"
  using single_cycle_unless_restarted [OF sample_run(1) sample_run(2)] sample_run
  by simp

theorem watchdog_second_cycle_counterexample:
  "snd (loopRun [ModeChange WALKING True False, Invoke 0, Watchdog 4000]
      (initialSession 0, 0)) = 2
   \<and> \<not> undisturbed [ModeChange WALKING True False, Invoke 0, Watchdog 4000]
        (initialSession 0, 0)"
  by code_simp

section \<open>Properties: navigation narrator and command pipeline\<close>

lemma commit_all_fields:
  "navPlanRef (commit s) = navPlan s" "navPlan (commit s) = navPlan s"
  "stepIndexRef (commit s) = currentStepIndex s" "currentStepIndex (commit s) = currentStepIndex s"
  "isCompanionModeRef (commit s) = isCompanionMode s" "isCompanionMode (commit s) = isCompanionMode s"
  "navTimerRef (commit s) = navTimerRef s" "isAnalyzingFrameRef (commit s) = isAnalyzingFrameRef s"
  "abortControllerRef (commit s) = abortControllerRef s" "interactionIdRef (commit s) = interactionIdRef s"
  "lastButtonPressRef (commit s) = lastButtonPressRef s"
  "lastCompanionMsgRef (commit s) = lastCompanionMsgRef s" "lastLoopTimeRef (commit s) = lastLoopTimeRef s"
  by (simp_all add: commit_eq inferState_def syncRefs_def setAppState_def)

lemma commit_navTimer:
  "commit (s\<lparr>navTimerRef := t\<rparr>) = (commit s)\<lparr>navTimerRef := t\<rparr>"
  by (cases s rule: mode_cases)
     (simp_all add: commit_eq inferState_def syncRefs_def setAppState_def)

lemma tick_arrival:
  assumes "navPlanRef s = Some plan" "steps plan = Some xs" "isNavigatingRef s"
    "appStateRef s = NAVIGATING" "length xs \<le> stepIndexRef s"
  shows "startNavigationLoop speaking s =
     (setAppState (if isWalkingFeatureActiveRef s then WALKING else IDLE)
        ((emit (Speak ''You have arrived.'' False) s)\<lparr>isNavigating := False, navPlan := None\<rparr>),
      TickDone)"
  using assms by (simp add: startNavigationLoop_def Let_def)

lemma tick_busy:
  assumes "navPlanRef s = Some plan" "steps plan = Some xs" "isNavigatingRef s"
    "appStateRef s = NAVIGATING" "stepIndexRef s < length xs"
  shows "startNavigationLoop True s = (s\<lparr>navTimerRef := Some (RetryTick 3000)\<rparr>, TickDone)"
  using assms by (simp add: startNavigationLoop_def Let_def)

lemma tick_speak:
  assumes "navPlanRef s = Some plan" "steps plan = Some xs" "isNavigatingRef s"
    "appStateRef s = NAVIGATING" "stepIndexRef s < length xs"
  shows "startNavigationLoop False s =
     (emit (Speak (xs ! stepIndexRef s) False) (emit (PlaySound ''navigation'') s), TickSpoke)"
  using assms by (simp add: startNavigationLoop_def Let_def)

lemma tick_throws:
  assumes "navPlanRef s = Some plan" "steps plan = None" "isNavigatingRef s"
    "appStateRef s = NAVIGATING"
  shows "startNavigationLoop speaking s = (s, TickThrew)"
  using assms by (simp add: startNavigationLoop_def)

lemma tick_cursor:
  "currentStepIndex (fst (startNavigationLoop speaking s)) = currentStepIndex s"
  by (simp add: startNavigationLoop_def Let_def emit_def setAppState_def
      split: option.splits)

lemma round_state:
  assumes "narrating plan j s"
  shows "commit (navSpeechDone (commit s)) = (commit s)\<lparr>navTimerRef := Some (AdvanceStep 14000)\<rparr>"
proof -
  have "appStateRef (commit s) = NAVIGATING"
    using assms by (simp add: narrating_def commit_fields inferState_mode)
  then have "navSpeechDone (commit s) = (commit s)\<lparr>navTimerRef := Some (AdvanceStep 14000)\<rparr>"
    by (simp add: navSpeechDone_def)
  then show ?thesis by (simp add: commit_navTimer commit_idem)
qed

lemma round_fire:
  assumes "narrating plan j s"
  shows "navTimerFire False (commit (navSpeechDone (commit s))) =
     startNavigationLoop False ((commit s)\<lparr>navTimerRef := None, currentStepIndex := j + 1\<rparr>)"
proof -
  have a: "appStateRef (commit s) = NAVIGATING" "isNavigatingRef (commit s)"
    "currentStepIndex (commit s) = j"
    using assms by (simp_all add: narrating_def commit_fields commit_all_fields inferState_mode)
  show ?thesis
    using a by (simp add: round_state [OF assms] navTimerFire_def Let_def)
qed

lemma round_speak:
  assumes "narrating plan j s" "steps plan = Some xs" "j < length xs"
  shows "\<exists>s'. navTimerFire False (commit (navSpeechDone (commit s))) = (s', TickSpoke)
           \<and> narrating plan (j + 1) s'
           \<and> effects s' = effects s @ [PlaySound ''navigation'', Speak (xs ! j) False]
           \<and> isWalkingFeatureActive s' = isWalkingFeatureActive s"
proof -
  let ?x = "(commit s)\<lparr>navTimerRef := None, currentStepIndex := j + 1\<rparr>"
  have x: "navPlanRef ?x = Some plan" "isNavigatingRef ?x" "appStateRef ?x = NAVIGATING"
    "stepIndexRef ?x = j" "navPlan ?x = Some plan" "isNavigating ?x" "appState ?x = NAVIGATING"
    "currentStepIndex ?x = j + 1" "effects ?x = effects s"
    "isWalkingFeatureActive ?x = isWalkingFeatureActive s"
    using assms(1) by (simp_all add: narrating_def commit_fields commit_all_fields inferState_mode)
  have "startNavigationLoop False ?x =
     (emit (Speak (xs ! stepIndexRef ?x) False) (emit (PlaySound ''navigation'') ?x), TickSpoke)"
    using x(1-4) assms(2,3) by (intro tick_speak) simp_all
  then show ?thesis
    using x by (simp add: round_fire [OF assms(1)] narrating_def emit_def)
qed

lemma round_arrive:
  assumes "narrating plan j s" "steps plan = Some xs" "length xs \<le> j"
  shows "\<exists>s'. navTimerFire False (commit (navSpeechDone (commit s))) = (s', TickDone)
           \<and> navPlan s' = None \<and> \<not> isNavigating s'
           \<and> appState s' = (if isWalkingFeatureActive s then WALKING else IDLE)
           \<and> effects s' = effects s @ [Speak ''You have arrived.'' False]"
proof -
  let ?x = "(commit s)\<lparr>navTimerRef := None, currentStepIndex := j + 1\<rparr>"
  have x: "navPlanRef ?x = Some plan" "isNavigatingRef ?x" "appStateRef ?x = NAVIGATING"
    "stepIndexRef ?x = j" "effects ?x = effects s"
    "isWalkingFeatureActiveRef ?x = isWalkingFeatureActive s"
    using assms(1) by (simp_all add: narrating_def commit_fields commit_all_fields inferState_mode)
  have "startNavigationLoop False ?x =
     (setAppState (if isWalkingFeatureActiveRef ?x then WALKING else IDLE)
        ((emit (Speak ''You have arrived.'' False) ?x)\<lparr>isNavigating := False, navPlan := None\<rparr>),
      TickDone)"
    using x(1-4) assms(2,3) by (intro tick_arrival) simp_all
  then show ?thesis
    using x by (simp add: round_fire [OF assms(1)] emit_def setAppState_def)
qed

lemma stepEffects_first:
  "j < k \<Longrightarrow> stepEffects xs j k =
     [PlaySound ''navigation'', Speak (xs ! j) False] @ stepEffects xs (Suc j) k"
  by (simp add: stepEffects_def upt_conv_Cons)

lemma stepEffects_speaks:
  "j \<le> i \<Longrightarrow> i < k \<Longrightarrow> Speak (xs ! i) False \<in> set (stepEffects xs j k)"
  by (auto simp add: stepEffects_def)

lemma narrate_arrives:
  assumes "narrating plan j s" "steps plan = Some xs" "j \<le> length xs" "k = length xs - j"
  shows "\<exists>s'. narrate (Suc k) (s, TickSpoke) = (s', TickDone)
           \<and> navPlan s' = None \<and> \<not> isNavigating s'
           \<and> appState s' = (if isWalkingFeatureActive s then WALKING else IDLE)
           \<and> effects s' = effects s @ stepEffects xs j (length xs)
                 @ [Speak ''You have arrived.'' False]"
  using assms
proof (induction k arbitrary: j s)
  case 0
  then have eq: "j = length xs" by simp
  then have "length xs \<le> j" by simp
  from round_arrive [OF "0.prems"(1,2) this] eq show ?case
    by (simp add: stepEffects_def)
next
  case (Suc k)
  then have lt: "j < length xs" by simp
  from round_speak [OF Suc.prems(1,2) lt] obtain s1 where s1:
    "navTimerFire False (commit (navSpeechDone (commit s))) = (s1, TickSpoke)"
    "narrating plan (j + 1) s1"
    "effects s1 = effects s @ [PlaySound ''navigation'', Speak (xs ! j) False]"
    "isWalkingFeatureActive s1 = isWalkingFeatureActive s"
    by blast
  have "\<exists>s'. narrate (Suc k) (s1, TickSpoke) = (s', TickDone)
           \<and> navPlan s' = None \<and> \<not> isNavigating s'
           \<and> appState s' = (if isWalkingFeatureActive s1 then WALKING else IDLE)
           \<and> effects s' = effects s1 @ stepEffects xs (j + 1) (length xs)
                 @ [Speak ''You have arrived.'' False]"
    using s1(2) Suc.prems(2) lt Suc.prems(4) by (intro Suc.IH) simp_all
  then show ?case
    using s1 lt by (simp add: stepEffects_first)
qed

lemma inv_steps:
  "navImpliesWalking (emit e s) = navImpliesWalking s"
  "navImpliesWalking (setAppState m s) = navImpliesWalking s"
  "navImpliesWalking (commit s) = navImpliesWalking s"
  "navImpliesWalking (restoreState s) = navImpliesWalking s"
  "navImpliesWalking (handleError msg s) = navImpliesWalking s"
  "navImpliesWalking (s\<lparr>isCompanionMode := b\<rparr>) = navImpliesWalking s"
  "navImpliesWalking (s\<lparr>lastCompanionMsgRef := t\<rparr>) = navImpliesWalking s"
  "navImpliesWalking (s\<lparr>isWalkingFeatureActive := True\<rparr>)"
  "navImpliesWalking (s\<lparr>isNavigating := False, navPlan := n\<rparr>)"
  "navImpliesWalking (s\<lparr>isWalkingFeatureActive := True, isCompanionMode := b, lastCompanionMsgRef := t\<rparr>)"
  "navImpliesWalking (s\<lparr>navPlan := n, currentStepIndex := i, isNavigating := True,
      isWalkingFeatureActive := True, isCompanionMode := b, lastCompanionMsgRef := t\<rparr>)"
  by (simp_all add: navImpliesWalking_def emit_def setAppState_def commit_fields restoreState_def
      handleError_def)

lemma inv_suspend:
  assumes "preserving oth" "navImpliesWalking s"
  shows "navImpliesWalking (suspend oth p s)"
  using assms by (simp add: suspend_def preserving_def inv_steps)

lemma inv_catch:
  "navImpliesWalking (commandCatch msg commandId s) = navImpliesWalking s"
  by (simp add: commandCatch_def inv_steps)

lemma inv_companionOn:
  assumes "preserving (others env)" "navImpliesWalking s"
  shows "navImpliesWalking (companionOn env s)"
  using assms by (simp add: companionOn_def Let_def inv_steps inv_suspend)

lemma inv_companionOff:
  assumes "preserving (others env)" "navImpliesWalking s"
  shows "navImpliesWalking (companionOff env s)"
  using assms by (simp add: companionOff_def inv_steps inv_suspend)

lemma inv_navigateTo:
  assumes "preserving (others env)" "navImpliesWalking s"
  shows "navImpliesWalking (navigateTo env commandId intent s)"
  using assms
  by (simp add: navigateTo_def Let_def inv_steps inv_suspend split: option.splits)

lemma inv_stopNavigation:
  assumes "preserving (others env)"
  shows "navImpliesWalking (stopNavigation env s)"
  using assms by (simp add: stopNavigation_def Let_def inv_steps inv_suspend)

lemma inv_walkingModeOn:
  assumes "preserving (others env)"
  shows "navImpliesWalking (walkingModeOn env s)"
  using assms by (simp add: walkingModeOn_def inv_steps inv_suspend)

lemma inv_visualIntent:
  assumes "preserving (others env)" "navImpliesWalking s"
  shows "navImpliesWalking (visualIntent env commandId intent s)"
  using assms
  by (simp add: visualIntent_def Let_def inv_steps inv_suspend inv_catch split: outcome.splits)

lemma inv_dispatch:
  assumes "preserving (others env)" "navImpliesWalking s" "intent_type intent \<noteq> WALKING_MODE_OFF"
  shows "navImpliesWalking (dispatchIntent env commandId intent s)"
  using assms
  by (simp add: dispatchIntent_def inv_companionOn inv_companionOff inv_navigateTo
      inv_stopNavigation inv_walkingModeOn inv_visualIntent)

lemma inv_processCommand:
  assumes "preserving (others env)" "navImpliesWalking s"
    "\<forall>intent. classified env = Returned intent \<longrightarrow> intent_type intent \<noteq> WALKING_MODE_OFF"
  shows "navImpliesWalking (processCommand transcript commandId env s)"
  using assms
  by (simp add: processCommand_def Let_def inv_steps inv_suspend inv_catch inv_dispatch
      split: outcome.splits)

lemma process_quiet:
  assumes "commandRuns transcript commandId env intent s"
  shows "processCommand transcript commandId env s =
     dispatchIntent env commandId intent
       (commit (emit (PlaySound ''end'') (setAppState PROCESSING_INTENT s)))"
  using assms
  by (simp add: commandRuns_def processCommand_def Let_def suspend_quiet commit_all_fields
      emit_def setAppState_def)

lemmas session_fields = commit_fields commit_all_fields emit_def setAppState_def inferState_mode

lemma stop_quiet:
  assumes "commandRuns transcript commandId env intent s" "intent_type intent = STOP_NAVIGATION"
  shows "navPlan (processCommand transcript commandId env s) = None"
    "\<not> isNavigating (processCommand transcript commandId env s)"
    "effects (processCommand transcript commandId env s) =
       effects s @ [PlaySound ''end'', Speak ''Navigation stopped.'' False]"
    "appState (processCommand transcript commandId env s) =
       (if isWalkingFeatureActive s then WALKING else IDLE)"
proof -
  have q: "others env = quiet" using assms(1) by (simp add: commandRuns_def)
  let ?x = "commit (emit (PlaySound ''end'') (setAppState PROCESSING_INTENT s))"
  have run: "processCommand transcript commandId env s = stopNavigation env ?x"
    using assms(2) by (simp add: process_quiet [OF assms(1)] dispatchIntent_def)
  show "navPlan (processCommand transcript commandId env s) = None"
    "\<not> isNavigating (processCommand transcript commandId env s)"
    "effects (processCommand transcript commandId env s) =
       effects s @ [PlaySound ''end'', Speak ''Navigation stopped.'' False]"
    "appState (processCommand transcript commandId env s) =
       (if isWalkingFeatureActive s then WALKING else IDLE)"
    unfolding run
    by (simp_all add: stopNavigation_def Let_def q suspend_quiet session_fields)
qed

lemma walkingOff_quiet:
  assumes "commandRuns transcript commandId env intent s" "intent_type intent = WALKING_MODE_OFF"
  shows "\<not> isWalkingFeatureActive (processCommand transcript commandId env s)"
    "isNavigating (processCommand transcript commandId env s) = isNavigating s"
    "appState (processCommand transcript commandId env s) = IDLE"
proof -
  have q: "others env = quiet" using assms(1) by (simp add: commandRuns_def)
  let ?x = "commit (emit (PlaySound ''end'') (setAppState PROCESSING_INTENT s))"
  have run: "processCommand transcript commandId env s = walkingModeOff env ?x"
    using assms(2) by (simp add: process_quiet [OF assms(1)] dispatchIntent_def)
  show "\<not> isWalkingFeatureActive (processCommand transcript commandId env s)"
    "isNavigating (processCommand transcript commandId env s) = isNavigating s"
    "appState (processCommand transcript commandId env s) = IDLE"
    unfolding run
    by (simp_all add: walkingModeOff_def q suspend_quiet session_fields)
qed

lemma navigate_quiet:
  assumes "commandRuns transcript commandId env intent s" "intent_type intent = NAVIGATE"
    "destination intent = Some d" "d \<noteq> []" "directions env = Some plan"
  shows "navPlan (processCommand transcript commandId env s) = Some plan"
    "isNavigating (processCommand transcript commandId env s)"
    "isWalkingFeatureActive (processCommand transcript commandId env s)"
    "appState (processCommand transcript commandId env s) = NAVIGATING"
    "currentStepIndex (processCommand transcript commandId env s) = 0"
    "rendered (processCommand transcript commandId env s)"
    "effects (processCommand transcript commandId env s) =
       effects s @ [PlaySound ''end'', Speak (''Calculating walking route to '' @ d @ ''.'') False,
         Geolocate 4000,
         Speak (''Route found. '' @ templateText (totalTime plan) @ ''. Starting navigation.'')
           False]"
proof -
  have q: "others env = quiet" "interactionIdRef s = commandId"
    using assms(1) by (simp_all add: commandRuns_def)
  let ?x = "commit (emit (PlaySound ''end'') (setAppState PROCESSING_INTENT s))"
  have run: "processCommand transcript commandId env s = navigateTo env commandId intent ?x"
    using assms(2) by (simp add: process_quiet [OF assms(1)] dispatchIntent_def)
  let ?y = "emit (Speak (''Route found. '' @ templateText (totalTime plan)
                           @ ''. Starting navigation.'') False)
     (setAppState NAVIGATING
       ((commit (commit (emit (Geolocate 4000)
           (emit (Speak (''Calculating walking route to '' @ d @ ''.'') False) ?x))))
        \<lparr>navPlan := Some plan, currentStepIndex := 0, isNavigating := True,
          isWalkingFeatureActive := True, isCompanionMode := True,
          lastCompanionMsgRef := commandNow env\<rparr>))"
  have nav: "navigateTo env commandId intent ?x = commit ?y"
    using assms(3-) q
    by (simp add: navigateTo_def Let_def suspend_quiet session_fields)
  show "navPlan (processCommand transcript commandId env s) = Some plan"
    "isNavigating (processCommand transcript commandId env s)"
    "isWalkingFeatureActive (processCommand transcript commandId env s)"
    "appState (processCommand transcript commandId env s) = NAVIGATING"
    "currentStepIndex (processCommand transcript commandId env s) = 0"
    "effects (processCommand transcript commandId env s) =
       effects s @ [PlaySound ''end'', Speak (''Calculating walking route to '' @ d @ ''.'') False,
         Geolocate 4000,
         Speak (''Route found. '' @ templateText (totalTime plan) @ ''. Starting navigation.'')
           False]"
    unfolding run nav
    by (simp_all add: session_fields)
  show "rendered (processCommand transcript commandId env s)"
    unfolding run nav by (simp add: rendered_def commit_idem)
qed

lemma first_press:
  "handleButtonPress 1000 (initialSession 0) =
     (listeningSession\<lparr>appStateRef := IDLE\<rparr>, True)"
  "commit (listeningSession\<lparr>appStateRef := IDLE\<rparr>) = listeningSession"
  "pressDuringSpeech AwaitListen listeningSession = listeningSession"
  "commit listeningSession = listeningSession"
  by code_simp+

text \<open>
  C1. A superseded interaction changes the session: the button is pressed at 1000 and the command is
  classified as \<open>COMPANION_MODE_ON\<close>; while its confirmation is being spoken the button is
  pressed again at 5000, which makes 5000 the current interaction, sets the mode to
  \<open>LISTENING\<close> and cancels the speech. The pipeline of interaction 1000 resumes after the
  speech without comparing its id (lines 385-389) and sets the walking toggle and the mode
  \<open>WALKING\<close>.
\<close>

theorem stale_interaction_mutates_state:
  "interactionIdRef (pressAndCommand 1000 (Heard ''stay with me'') companionEnv (initialSession 0))
     = 5000
   \<and> appState (pressAndCommand 1000 (Heard ''stay with me'') companionEnv (initialSession 0))
     = WALKING
   \<and> isWalkingFeatureActive
       (pressAndCommand 1000 (Heard ''stay with me'') companionEnv (initialSession 0))
   \<and> effects (pressAndCommand 1000 (Heard ''stay with me'') companionEnv (initialSession 0)) =
       [Speak ''SightMate ready. Press to speak.'' False, StopSpeaking, Vibrate 50, Listen 45,
        PlaySound ''end'', Speak ''I'm here with you now. Let's go together.'' False,
        AbortInFlight, StopSpeaking, Vibrate 50, Listen 45]"
  by code_simp

lemma narrate_from_first_tick:
  assumes "navPlanRef s = Some plan" "steps plan = Some xs" "isNavigatingRef s"
    "appStateRef s = NAVIGATING"
    and "rendered s" "currentStepIndex s = 0"
  shows "\<exists>r. narrate (Suc (length xs)) (startNavigationLoop False s) = (r, TickDone)
           \<and> navPlan r = None \<and> \<not> isNavigating r
           \<and> appState r = (if isWalkingFeatureActive s then WALKING else IDLE)
           \<and> effects r = effects s
                @ (if xs = [] then [] else [PlaySound ''navigation'', Speak (xs ! 0) False])
                @ stepEffects xs 0 (length xs)
                @ [Speak ''You have arrived.'' False]"
proof -
  note refs = rendered_refs [OF assms(5)]
  have st: "narrating plan 0 s" "stepIndexRef s = 0"
    using assms refs by (simp_all add: narrating_def)
  show ?thesis
  proof (cases "xs = []")
    case True
    then have "length xs \<le> stepIndexRef s" by simp
    from tick_arrival [OF assms(1-4) this, of False] True refs show ?thesis
      by (simp add: stepEffects_def emit_def setAppState_def)
  next
    case False
    then have lt: "stepIndexRef s < length xs" using st(2) by simp
    let ?s1 = "emit (Speak (xs ! 0) False) (emit (PlaySound ''navigation'') s)"
    have tick: "startNavigationLoop False s = (?s1, TickSpoke)"
      using tick_speak [OF assms(1-4) lt] st(2) by simp
    have n1: "narrating plan 0 ?s1" using st(1) by (simp add: narrating_def emit_def)
    from narrate_arrives [OF n1 assms(2), of "length xs"]
    obtain r where r: "narrate (Suc (length xs)) (?s1, TickSpoke) = (r, TickDone)"
      "navPlan r = None" "\<not> isNavigating r"
      "appState r = (if isWalkingFeatureActive ?s1 then WALKING else IDLE)"
      "effects r = effects ?s1 @ stepEffects xs 0 (length xs)
                 @ [Speak ''You have arrived.'' False]"
      by auto
    then show ?thesis
      using False by (simp add: tick emit_def)
  qed
qed

lemma narrate_reaches_arrival:
  assumes "navPlanRef s = Some plan" "steps plan = Some xs" "isNavigatingRef s"
    "appStateRef s = NAVIGATING"
    and "rendered s" "currentStepIndex s = 0"
  shows "\<exists>k new. snd (narrate k (startNavigationLoop False s)) = TickDone
           \<and> navPlan (fst (narrate k (startNavigationLoop False s))) = None
           \<and> \<not> isNavigating (fst (narrate k (startNavigationLoop False s)))
           \<and> appState (fst (narrate k (startNavigationLoop False s))) =
               (if isWalkingFeatureActive s then WALKING else IDLE)
           \<and> effects (fst (narrate k (startNavigationLoop False s))) =
               effects s @ new @ [Speak ''You have arrived.'' False]
           \<and> (\<forall>i<length xs. Speak (xs ! i) False \<in> set new)"
proof -
  let ?new = "(if xs = [] then [] else [PlaySound ''navigation'', Speak (xs ! 0) False])
                @ stepEffects xs 0 (length xs)"
  from narrate_from_first_tick [OF assms] obtain r where r:
    "narrate (Suc (length xs)) (startNavigationLoop False s) = (r, TickDone)"
    "navPlan r = None" "\<not> isNavigating r"
    "appState r = (if isWalkingFeatureActive s then WALKING else IDLE)"
    "effects r = effects s @ ?new @ [Speak ''You have arrived.'' False]"
    by auto
  have all: "\<forall>i<length xs. Speak (xs ! i) False \<in> set ?new"
    using stepEffects_speaks [of 0 _ "length xs" xs] by simp
  have "snd (narrate (Suc (length xs)) (startNavigationLoop False s)) = TickDone
           \<and> navPlan (fst (narrate (Suc (length xs)) (startNavigationLoop False s))) = None
           \<and> \<not> isNavigating (fst (narrate (Suc (length xs)) (startNavigationLoop False s)))
           \<and> appState (fst (narrate (Suc (length xs)) (startNavigationLoop False s))) =
               (if isWalkingFeatureActive s then WALKING else IDLE)
           \<and> effects (fst (narrate (Suc (length xs)) (startNavigationLoop False s))) =
               effects s @ ?new @ [Speak ''You have arrived.'' False]
           \<and> (\<forall>i<length xs. Speak (xs ! i) False \<in> set ?new)"
    using r all by simp
  then show ?thesis by blast
qed

lemma advance_cursor:
  assumes "isNavigatingRef s" "appStateRef s = NAVIGATING"
  shows "currentStepIndex (fst (navTimerFire speaking (s\<lparr>navTimerRef := Some (AdvanceStep d)\<rparr>))) =
     currentStepIndex s + 1"
  using assms by (simp add: navTimerFire_def Let_def tick_cursor)

text \<open>
  C8 (as amended). \<open>stepIndex\<close> is the cursor \<open>currentStepIndex\<close>, which a tick reads through
  its copy \<open>stepIndexRef\<close>; the statement is about a tick that passes its guards (a plan, the
  navigating toggle, mode \<open>NAVIGATING\<close>) on a plan that has a step list, at a moment when the
  copy is in step with the cursor. At the end of the steps the tick announces arrival, clears
  the plan and the navigating toggle and sets the mode to \<open>WALKING\<close> if the walking toggle is
  set and to \<open>IDLE\<close> otherwise; while something is speaking it arms a 3 s timer that runs the
  same tick again, the cursor untouched; otherwise it plays the cue, speaks the step of the
  cursor, the end of the speech arms a 14 s timer, and when that timer fires the cursor is one
  further. Undisturbed, the narration of any step list (the empty one included) started at
  cursor 0 comes to an end: after some number of timers the arrival is announced last, the
  plan and the navigating toggle are cleared, and every step has been spoken. The
  stop-navigation command clears the plan and says only "Navigation stopped."; the navigate
  command accepts whatever plan the directions service returned and starts at cursor 0, and
  the directions service returns the parsed object as it is, the object without fields for
  an empty text.
\<close>

theorem navigation_ticks:
  assumes "navPlanRef s = Some plan" and "steps plan = Some stepList"
    and "isNavigatingRef s" and "appStateRef s = NAVIGATING"
    and "stepIndexRef s = currentStepIndex s"
  shows
   "(length stepList \<le> currentStepIndex s \<longrightarrow>
       startNavigationLoop speaking s =
         (setAppState (if isWalkingFeatureActiveRef s then WALKING else IDLE)
            ((emit (Speak ''You have arrived.'' False) s)\<lparr>isNavigating := False, navPlan := None\<rparr>),
          TickDone))
    \<and> (currentStepIndex s < length stepList \<longrightarrow>
         startNavigationLoop True s = (s\<lparr>navTimerRef := Some (RetryTick 3000)\<rparr>, TickDone)
         \<and> navTimerFire speaking (s\<lparr>navTimerRef := Some (RetryTick 3000)\<rparr>) =
             startNavigationLoop speaking (s\<lparr>navTimerRef := None\<rparr>)
         \<and> startNavigationLoop False s =
             (emit (Speak (stepList ! currentStepIndex s) False)
                (emit (PlaySound ''navigation'') s),
              TickSpoke)
         \<and> navSpeechDone s = s\<lparr>navTimerRef := Some (AdvanceStep 14000)\<rparr>
         \<and> currentStepIndex
             (fst (navTimerFire speaking (s\<lparr>navTimerRef := Some (AdvanceStep 14000)\<rparr>))) =
             currentStepIndex s + 1)
    \<and> (rendered s \<and> currentStepIndex s = 0 \<longrightarrow>
         (\<exists>k new. snd (narrate k (startNavigationLoop False s)) = TickDone
           \<and> navPlan (fst (narrate k (startNavigationLoop False s))) = None
           \<and> \<not> isNavigating (fst (narrate k (startNavigationLoop False s)))
           \<and> appState (fst (narrate k (startNavigationLoop False s))) =
               (if isWalkingFeatureActive s then WALKING else IDLE)
           \<and> effects (fst (narrate k (startNavigationLoop False s))) =
               effects s @ new @ [Speak ''You have arrived.'' False]
           \<and> (\<forall>i<length stepList. Speak (stepList ! i) False \<in> set new)))
    \<and> (commandRuns transcript commandId env intent x \<and> intent_type intent = STOP_NAVIGATION \<longrightarrow>
         navPlan (processCommand transcript commandId env x) = None
         \<and> \<not> isNavigating (processCommand transcript commandId env x)
         \<and> effects (processCommand transcript commandId env x) =
             effects x @ [PlaySound ''end'', Speak ''Navigation stopped.'' False])
    \<and> (commandRuns transcript commandId env intent x \<and> intent_type intent = NAVIGATE
          \<and> destination intent = Some d \<and> d \<noteq> [] \<and> directions env = Some p \<longrightarrow>
         navPlan (processCommand transcript commandId env x) = Some p
         \<and> isNavigating (processCommand transcript commandId env x)
         \<and> appState (processCommand transcript commandId env x) = NAVIGATING
         \<and> currentStepIndex (processCommand transcript commandId env x) = 0)
    \<and> getWalkingDirections False (PlanJson p) False = Some p
    \<and> getWalkingDirections False EmptyText False = Some emptyObject"
proof -
  note tick = assms(1-4)
  have arrive: "length stepList \<le> currentStepIndex s \<longrightarrow>
       startNavigationLoop speaking s =
         (setAppState (if isWalkingFeatureActiveRef s then WALKING else IDLE)
            ((emit (Speak ''You have arrived.'' False) s)\<lparr>isNavigating := False, navPlan := None\<rparr>),
          TickDone)"
    using tick_arrival [OF tick] assms(5) by simp
  have step: "currentStepIndex s < length stepList \<longrightarrow>
         startNavigationLoop True s = (s\<lparr>navTimerRef := Some (RetryTick 3000)\<rparr>, TickDone)
         \<and> navTimerFire speaking (s\<lparr>navTimerRef := Some (RetryTick 3000)\<rparr>) =
             startNavigationLoop speaking (s\<lparr>navTimerRef := None\<rparr>)
         \<and> startNavigationLoop False s =
             (emit (Speak (stepList ! currentStepIndex s) False)
                (emit (PlaySound ''navigation'') s),
              TickSpoke)
         \<and> navSpeechDone s = s\<lparr>navTimerRef := Some (AdvanceStep 14000)\<rparr>
         \<and> currentStepIndex
             (fst (navTimerFire speaking (s\<lparr>navTimerRef := Some (AdvanceStep 14000)\<rparr>))) =
             currentStepIndex s + 1"
  proof
    assume lt: "currentStepIndex s < length stepList"
    then have lt': "stepIndexRef s < length stepList" using assms(5) by simp
    have a: "startNavigationLoop True s = (s\<lparr>navTimerRef := Some (RetryTick 3000)\<rparr>, TickDone)"
      by (rule tick_busy [OF tick lt'])
    have b: "navTimerFire speaking (s\<lparr>navTimerRef := Some (RetryTick 3000)\<rparr>) =
             startNavigationLoop speaking (s\<lparr>navTimerRef := None\<rparr>)"
      by (simp add: navTimerFire_def)
    have c: "startNavigationLoop False s =
             (emit (Speak (stepList ! currentStepIndex s) False)
                (emit (PlaySound ''navigation'') s),
              TickSpoke)"
      using tick_speak [OF tick lt'] assms(5) by simp
    have d: "navSpeechDone s = s\<lparr>navTimerRef := Some (AdvanceStep 14000)\<rparr>"
      using assms(4) by (simp add: navSpeechDone_def)
    have e: "currentStepIndex
             (fst (navTimerFire speaking (s\<lparr>navTimerRef := Some (AdvanceStep 14000)\<rparr>))) =
             currentStepIndex s + 1"
      by (rule advance_cursor [OF assms(3,4)])
    from a b c d e show "startNavigationLoop True s =
           (s\<lparr>navTimerRef := Some (RetryTick 3000)\<rparr>, TickDone)
         \<and> navTimerFire speaking (s\<lparr>navTimerRef := Some (RetryTick 3000)\<rparr>) =
             startNavigationLoop speaking (s\<lparr>navTimerRef := None\<rparr>)
         \<and> startNavigationLoop False s =
             (emit (Speak (stepList ! currentStepIndex s) False)
                (emit (PlaySound ''navigation'') s),
              TickSpoke)
         \<and> navSpeechDone s = s\<lparr>navTimerRef := Some (AdvanceStep 14000)\<rparr>
         \<and> currentStepIndex
             (fst (navTimerFire speaking (s\<lparr>navTimerRef := Some (AdvanceStep 14000)\<rparr>))) =
             currentStepIndex s + 1"
      by blast
  qed
  have run: "rendered s \<and> currentStepIndex s = 0 \<longrightarrow>
         (\<exists>k new. snd (narrate k (startNavigationLoop False s)) = TickDone
           \<and> navPlan (fst (narrate k (startNavigationLoop False s))) = None
           \<and> \<not> isNavigating (fst (narrate k (startNavigationLoop False s)))
           \<and> appState (fst (narrate k (startNavigationLoop False s))) =
               (if isWalkingFeatureActive s then WALKING else IDLE)
           \<and> effects (fst (narrate k (startNavigationLoop False s))) =
               effects s @ new @ [Speak ''You have arrived.'' False]
           \<and> (\<forall>i<length stepList. Speak (stepList ! i) False \<in> set new))"
    using narrate_reaches_arrival [OF tick] by blast
  have stop: "commandRuns transcript commandId env intent x \<and> intent_type intent = STOP_NAVIGATION \<longrightarrow>
         navPlan (processCommand transcript commandId env x) = None
         \<and> \<not> isNavigating (processCommand transcript commandId env x)
         \<and> effects (processCommand transcript commandId env x) =
             effects x @ [PlaySound ''end'', Speak ''Navigation stopped.'' False]"
    using stop_quiet by blast
  have start: "commandRuns transcript commandId env intent x \<and> intent_type intent = NAVIGATE
          \<and> destination intent = Some d \<and> d \<noteq> [] \<and> directions env = Some p \<longrightarrow>
         navPlan (processCommand transcript commandId env x) = Some p
         \<and> isNavigating (processCommand transcript commandId env x)
         \<and> appState (processCommand transcript commandId env x) = NAVIGATING
         \<and> currentStepIndex (processCommand transcript commandId env x) = 0"
  proof
    assume "commandRuns transcript commandId env intent x \<and> intent_type intent = NAVIGATE
          \<and> destination intent = Some d \<and> d \<noteq> [] \<and> directions env = Some p"
    then have h: "commandRuns transcript commandId env intent x" "intent_type intent = NAVIGATE"
      "destination intent = Some d" "d \<noteq> []" "directions env = Some p"
      by simp_all
    from navigate_quiet(1,2,4,5) [OF h]
    show "navPlan (processCommand transcript commandId env x) = Some p
         \<and> isNavigating (processCommand transcript commandId env x)
         \<and> appState (processCommand transcript commandId env x) = NAVIGATING
         \<and> currentStepIndex (processCommand transcript commandId env x) = 0"
      by simp
  qed
  have parsed: "getWalkingDirections False (PlanJson p) False = Some p"
    "getWalkingDirections False EmptyText False = Some emptyObject"
    by (simp_all add: getWalkingDirections_def)
  from arrive step run stop start parsed show ?thesis by blast
qed

lemma navigatingSession_fields:
  "navPlanRef navigatingSession = Some twoStepPlan" "isNavigatingRef navigatingSession"
  "appStateRef navigatingSession = NAVIGATING" "rendered navigatingSession"
  "currentStepIndex navigatingSession = 0" "isWalkingFeatureActive navigatingSession"
  "isNavigating navigatingSession" "navImpliesWalking navigatingSession"
  "effects navigatingSession =
     [Speak ''SightMate ready. Press to speak.'' False, StopSpeaking, Vibrate 50, Listen 45,
      PlaySound ''end'', Speak ''Calculating walking route to the park.'' False, Geolocate 4000,
      Speak ''Route found. 5 min. Starting navigation.'' False]"
  "stepIndexRef navigatingSession = currentStepIndex navigatingSession"
  "steps twoStepPlan = Some [''Walk north'', ''Turn left'']"
  "navPlan navigatingSession = Some twoStepPlan"
  by code_simp+

theorem navigation_ticks_witness:
  "navPlanRef navigatingSession = Some twoStepPlan
   \<and> steps twoStepPlan = Some [''Walk north'', ''Turn left'']
   \<and> isNavigatingRef navigatingSession
   \<and> appStateRef navigatingSession = NAVIGATING
   \<and> stepIndexRef navigatingSession = currentStepIndex navigatingSession
   \<and> rendered navigatingSession \<and> currentStepIndex navigatingSession = 0
   \<and> startNavigationLoop False navigatingSession =
       (emit (Speak ''Walk north'' False) (emit (PlaySound ''navigation'') navigatingSession),
        TickSpoke)
   \<and> (\<exists>k. snd (narrate k (startNavigationLoop False navigatingSession)) = TickDone
         \<and> navPlan (fst (narrate k (startNavigationLoop False navigatingSession))) = None
         \<and> appState (fst (narrate k (startNavigationLoop False navigatingSession))) = WALKING
         \<and> Speak ''Walk north'' False
             \<in> set (effects (fst (narrate k (startNavigationLoop False navigatingSession))))
         \<and> Speak ''Turn left'' False
             \<in> set (effects (fst (narrate k (startNavigationLoop False navigatingSession)))))"
proof -
  note f = navigatingSession_fields
  note t = navigation_ticks [OF f(1) f(11) f(2) f(3) f(10)]
  have first: "startNavigationLoop False navigatingSession =
       (emit (Speak ''Walk north'' False) (emit (PlaySound ''navigation'') navigatingSession),
        TickSpoke)"
    using t [THEN conjunct2, THEN conjunct1] f(5) by simp
  from t [THEN conjunct2, THEN conjunct2, THEN conjunct1] f(4,5,6)
  obtain k new where r:
    "snd (narrate k (startNavigationLoop False navigatingSession)) = TickDone"
    "navPlan (fst (narrate k (startNavigationLoop False navigatingSession))) = None"
    "appState (fst (narrate k (startNavigationLoop False navigatingSession))) = WALKING"
    "effects (fst (narrate k (startNavigationLoop False navigatingSession))) =
       effects navigatingSession @ new @ [Speak ''You have arrived.'' False]"
    "\<forall>i<length [''Walk north'', ''Turn left''].
        Speak ([''Walk north'', ''Turn left''] ! i) False \<in> set new"
    by auto
  from r(5) [rule_format, of 0] r(5) [rule_format, of 1]
  have "Speak ''Walk north'' False \<in> set new" "Speak ''Turn left'' False \<in> set new"
    by simp_all
  with r(1-4) have "snd (narrate k (startNavigationLoop False navigatingSession)) = TickDone
         \<and> navPlan (fst (narrate k (startNavigationLoop False navigatingSession))) = None
         \<and> appState (fst (narrate k (startNavigationLoop False navigatingSession))) = WALKING
         \<and> Speak ''Walk north'' False
             \<in> set (effects (fst (narrate k (startNavigationLoop False navigatingSession))))
         \<and> Speak ''Turn left'' False
             \<in> set (effects (fst (narrate k (startNavigationLoop False navigatingSession))))"
    by simp
  then have run: "\<exists>k. snd (narrate k (startNavigationLoop False navigatingSession)) = TickDone
         \<and> navPlan (fst (narrate k (startNavigationLoop False navigatingSession))) = None
         \<and> appState (fst (narrate k (startNavigationLoop False navigatingSession))) = WALKING
         \<and> Speak ''Walk north'' False
             \<in> set (effects (fst (narrate k (startNavigationLoop False navigatingSession))))
         \<and> Speak ''Turn left'' False
             \<in> set (effects (fst (narrate k (startNavigationLoop False navigatingSession))))"
    by blast
  from f(1) f(11) f(2) f(3) f(10) f(4) f(5) first run show ?thesis by blast
qed

text \<open>
  The samples of C8: the plan with an empty step list, the object without fields, and the
  tick that the second advance timer of the two-step route runs: the cursor is 2, the tick
  still reads 1 from the ref and speaks the second step.
\<close>

lemma staleTick_value:
  "narrate 2 (startNavigationLoop False navigatingSession) =
     (navigatingSession\<lparr>currentStepIndex := 2, stepIndexRef := 1,
        effects := effects navigatingSession @
          [PlaySound ''navigation'', Speak ''Walk north'' False,
           PlaySound ''navigation'', Speak ''Walk north'' False,
           PlaySound ''navigation'', Speak ''Turn left'' False]\<rparr>,
      TickSpoke)"
  by code_simp

lemma staleTick_sample:
  "snd (narrate 2 (startNavigationLoop False navigatingSession)) = TickSpoke"
  "stepIndexRef (fst (narrate 2 (startNavigationLoop False navigatingSession))) = 1"
  "currentStepIndex (fst (narrate 2 (startNavigationLoop False navigatingSession))) = 2"
  "navPlan (fst (narrate 2 (startNavigationLoop False navigatingSession))) = Some twoStepPlan"
  "effects (fst (narrate 2 (startNavigationLoop False navigatingSession))) =
       [Speak ''SightMate ready. Press to speak.'' False, StopSpeaking, Vibrate 50, Listen 45,
        PlaySound ''end'', Speak ''Calculating walking route to the park.'' False, Geolocate 4000,
        Speak ''Route found. 5 min. Starting navigation.'' False,
        PlaySound ''navigation'', Speak ''Walk north'' False,
        PlaySound ''navigation'', Speak ''Walk north'' False,
        PlaySound ''navigation'', Speak ''Turn left'' False]"
  by (simp_all add: staleTick_value navigatingSession_fields)

lemma emptyObject_sample:
  "getWalkingDirections False EmptyText False = Some emptyObject"
  "steps emptyObject = None"
  "navPlan (processCommand ''take me to the park'' 1000 (navEnv emptyObject) listeningSession) =
       Some emptyObject"
  "snd (startNavigationLoop False
        (processCommand ''take me to the park'' 1000 (navEnv emptyObject) listeningSession)) =
       TickThrew"
  by code_simp+

theorem navigation_ticks_counterexample:
  "getWalkingDirections False (PlanJson emptyPlan) False = Some emptyPlan
   \<and> steps emptyPlan = Some []
   \<and> navPlan (processCommand ''take me to the park'' 1000 (navEnv emptyPlan) listeningSession) =
       Some emptyPlan
   \<and> isNavigating (processCommand ''take me to the park'' 1000 (navEnv emptyPlan) listeningSession)
   \<and> effects (fst (startNavigationLoop False
        (processCommand ''take me to the park'' 1000 (navEnv emptyPlan) listeningSession))) =
       [Speak ''SightMate ready. Press to speak.'' False, StopSpeaking, Vibrate 50, Listen 45,
        PlaySound ''end'', Speak ''Calculating walking route to the park.'' False, Geolocate 4000,
        Speak ''Route found. 0 min. Starting navigation.'' False,
        Speak ''You have arrived.'' False]
   \<and> getWalkingDirections False EmptyText False = Some emptyObject
   \<and> steps emptyObject = None
   \<and> navPlan (processCommand ''take me to the park'' 1000 (navEnv emptyObject) listeningSession) =
       Some emptyObject
   \<and> snd (startNavigationLoop False
        (processCommand ''take me to the park'' 1000 (navEnv emptyObject) listeningSession)) =
       TickThrew
   \<and> steps twoStepPlan = Some [''Walk north'', ''Turn left'']
   \<and> snd (narrate 2 (startNavigationLoop False navigatingSession)) = TickSpoke
   \<and> stepIndexRef (fst (narrate 2 (startNavigationLoop False navigatingSession))) = 1
   \<and> currentStepIndex (fst (narrate 2 (startNavigationLoop False navigatingSession))) = 2
   \<and> navPlan (fst (narrate 2 (startNavigationLoop False navigatingSession))) = Some twoStepPlan
   \<and> effects (fst (narrate 2 (startNavigationLoop False navigatingSession))) =
       [Speak ''SightMate ready. Press to speak.'' False, StopSpeaking, Vibrate 50, Listen 45,
        PlaySound ''end'', Speak ''Calculating walking route to the park.'' False, Geolocate 4000,
        Speak ''Route found. 5 min. Starting navigation.'' False,
        PlaySound ''navigation'', Speak ''Walk north'' False,
        PlaySound ''navigation'', Speak ''Walk north'' False,
        PlaySound ''navigation'', Speak ''Turn left'' False]"
proof -
  have a: "getWalkingDirections False (PlanJson emptyPlan) False = Some emptyPlan"
    "steps emptyPlan = Some []"
    "navPlan (processCommand ''take me to the park'' 1000 (navEnv emptyPlan) listeningSession) =
       Some emptyPlan"
    "isNavigating (processCommand ''take me to the park'' 1000 (navEnv emptyPlan) listeningSession)"
    "effects (fst (startNavigationLoop False
        (processCommand ''take me to the park'' 1000 (navEnv emptyPlan) listeningSession))) =
       [Speak ''SightMate ready. Press to speak.'' False, StopSpeaking, Vibrate 50, Listen 45,
        PlaySound ''end'', Speak ''Calculating walking route to the park.'' False, Geolocate 4000,
        Speak ''Route found. 0 min. Starting navigation.'' False,
        Speak ''You have arrived.'' False]"
    by code_simp+
  from a emptyObject_sample staleTick_sample navigatingSession_fields(11) show ?thesis
    by blast
qed

lemma preserving_quiet: "preserving quiet"
  by (simp add: preserving_def quiet_def)

lemma inv_walkingOff:
  assumes "commandRuns transcript commandId env intent s" "intent_type intent = WALKING_MODE_OFF"
  shows "navImpliesWalking (processCommand transcript commandId env s) \<longleftrightarrow> \<not> isNavigating s"
  by (simp add: navImpliesWalking_def walkingOff_quiet [OF assms])

text \<open>
  C2 (as amended). \<open>isNavigating \<longrightarrow> isWalkingFeatureActive\<close> is kept by every run of
  \<open>processCommand\<close> whose intent is not \<open>WALKING_MODE_OFF\<close>, whatever the other handlers do at
  the awaits as long as they keep it too. \<open>WALKING_MODE_OFF\<close> clears the walking toggle and
  leaves the navigating toggle as it is, so after it the implication holds exactly when
  navigation was not active. \<open>NAVIGATE\<close> with a plan sets both toggles, \<open>STOP_NAVIGATION\<close>
  clears the navigating toggle.
\<close>

theorem toggles_invariant_except_walking_off:
  assumes "navImpliesWalking s"
  shows
   "(preserving (others env)
       \<and> (\<forall>intent. classified env = Returned intent \<longrightarrow> intent_type intent \<noteq> WALKING_MODE_OFF)
       \<longrightarrow> navImpliesWalking (processCommand transcript commandId env s))
    \<and> (commandRuns transcript commandId env intent s \<and> intent_type intent = WALKING_MODE_OFF \<longrightarrow>
         \<not> isWalkingFeatureActive (processCommand transcript commandId env s)
         \<and> isNavigating (processCommand transcript commandId env s) = isNavigating s
         \<and> (navImpliesWalking (processCommand transcript commandId env s) \<longleftrightarrow> \<not> isNavigating s))
    \<and> (commandRuns transcript commandId env intent s \<and> intent_type intent = NAVIGATE
          \<and> destination intent = Some d \<and> d \<noteq> [] \<and> directions env = Some p \<longrightarrow>
         isNavigating (processCommand transcript commandId env s)
         \<and> isWalkingFeatureActive (processCommand transcript commandId env s))
    \<and> (commandRuns transcript commandId env intent s \<and> intent_type intent = STOP_NAVIGATION \<longrightarrow>
         \<not> isNavigating (processCommand transcript commandId env s))"
proof -
  have keep: "preserving (others env)
       \<and> (\<forall>intent. classified env = Returned intent \<longrightarrow> intent_type intent \<noteq> WALKING_MODE_OFF)
       \<longrightarrow> navImpliesWalking (processCommand transcript commandId env s)"
    using inv_processCommand [OF _ assms] by blast
  have off: "commandRuns transcript commandId env intent s \<and> intent_type intent = WALKING_MODE_OFF \<longrightarrow>
         \<not> isWalkingFeatureActive (processCommand transcript commandId env s)
         \<and> isNavigating (processCommand transcript commandId env s) = isNavigating s
         \<and> (navImpliesWalking (processCommand transcript commandId env s) \<longleftrightarrow> \<not> isNavigating s)"
    using walkingOff_quiet(1,2) inv_walkingOff by blast
  have nav: "commandRuns transcript commandId env intent s \<and> intent_type intent = NAVIGATE
          \<and> destination intent = Some d \<and> d \<noteq> [] \<and> directions env = Some p \<longrightarrow>
         isNavigating (processCommand transcript commandId env s)
         \<and> isWalkingFeatureActive (processCommand transcript commandId env s)"
  proof
    assume "commandRuns transcript commandId env intent s \<and> intent_type intent = NAVIGATE
          \<and> destination intent = Some d \<and> d \<noteq> [] \<and> directions env = Some p"
    then have h: "commandRuns transcript commandId env intent s" "intent_type intent = NAVIGATE"
      "destination intent = Some d" "d \<noteq> []" "directions env = Some p"
      by simp_all
    from navigate_quiet(2,3) [OF h]
    show "isNavigating (processCommand transcript commandId env s)
         \<and> isWalkingFeatureActive (processCommand transcript commandId env s)"
      by simp
  qed
  have stop: "commandRuns transcript commandId env intent s \<and> intent_type intent = STOP_NAVIGATION \<longrightarrow>
         \<not> isNavigating (processCommand transcript commandId env s)"
    using stop_quiet(2) by blast
  from keep off nav stop show ?thesis by blast
qed

lemma sample_navigate:
  "navImpliesWalking listeningSession"
  "\<forall>intent. classified (navEnv twoStepPlan) = Returned intent \<longrightarrow>
      intent_type intent \<noteq> WALKING_MODE_OFF"
  "others (navEnv twoStepPlan) = quiet"
  by (simp_all add: navImpliesWalking_def listeningSession_def navEnv_def)

theorem toggles_invariant_except_walking_off_witness:
  "navImpliesWalking listeningSession \<and> preserving (others (navEnv twoStepPlan))
   \<and> navImpliesWalking
       (processCommand ''take me to the park'' 1000 (navEnv twoStepPlan) listeningSession)
   \<and> isNavigating
       (processCommand ''take me to the park'' 1000 (navEnv twoStepPlan) listeningSession)"
  using toggles_invariant_except_walking_off [OF sample_navigate(1),
      of "navEnv twoStepPlan" "''take me to the park''" 1000, THEN conjunct1]
    sample_navigate preserving_quiet navigatingSession_fields(7)
  by (simp add: navigatingSession_def)

theorem walking_off_while_navigating_counterexample:
  "navImpliesWalking navigatingSession \<and> isNavigating navigatingSession
   \<and> isNavigating (pressAndCommand 9000 (Heard ''stop walking mode'') offEnv navigatingSession)
   \<and> \<not> isWalkingFeatureActive
       (pressAndCommand 9000 (Heard ''stop walking mode'') offEnv navigatingSession)
   \<and> \<not> navImpliesWalking
       (pressAndCommand 9000 (Heard ''stop walking mode'') offEnv navigatingSession)"
  by code_simp

end
